theory Spec2Isabelle
  imports Main "HOL-Library.Word"
begin

section \<open>HareDB: the encrypted key-value engine and its persistence worker\<close>

text \<open>
  The development embeds the TypeScript class \<open>HareDB\<close> (the variant with the
  \<open>meta\<close> table and the worker thread) and the worker script \<open>dbworker.ts\<close>.
  What belongs to the JavaScript runtime or to a library is made explicit:
  \<^item> a JavaScript string is a list of 16-bit code units; \<open>Buffer.from(string)\<close> is its
    UTF-8 encoding (a lone surrogate becomes U+FFFD) and \<open>buffer.toString()\<close> the
    UTF-8 decoding (malformed input becomes U+FFFD);
  \<^item> the two libsodium primitives \<open>crypto_secretbox_easy\<close> and
    \<open>crypto_secretbox_open_easy\<close> are fields of a record \<open>runtime\<close>, so that every
    theorem holds for whatever the library computes;
  \<^item> the object \<open>this.kv = {}\<close> is a map of own properties read through
    \<open>Object.prototype\<close>;
  \<^item> an SQLite table with a text primary key is a list of rows in row order, and the
    files are a map from paths to databases;
  \<^item> a thrown exception is the \<open>Inl\<close> of a result, next to the state reached.

  Left out, since nothing below depends on them: the \<open>exit\<close> handler that calls
  \<open>close\<close>, garbage collection, \<open>sodium_mlock\<close>, the write-ahead log settings, the
  and the replies the worker posts back.
  The methods \<open>set\<close> and \<open>get\<close> are called \<open>set_kv\<close> and \<open>get_kv\<close>.
\<close>

subsection \<open>Strings and buffers\<close>

type_synonym byte = "8 word"
type_synonym code_unit = "16 word"
type_synonym jsstring = "code_unit list"

text \<open>An ASCII literal of the source as a JavaScript string.\<close>

definition js :: "string \<Rightarrow> jsstring" where
  "js s = map of_char s"

definition is_high_surrogate :: "nat \<Rightarrow> bool" where
  "is_high_surrogate u = (55296 \<le> u \<and> u < 56320)"

definition is_low_surrogate :: "nat \<Rightarrow> bool" where
  "is_low_surrogate u = (56320 \<le> u \<and> u < 57344)"

text \<open>The UTF-8 bytes of one code point below \<open>0x110000\<close>.\<close>

definition utf8_of_code_point :: "nat \<Rightarrow> nat list" where
  "utf8_of_code_point c =
     (if c < 128 then [c]
      else if c < 2048 then [192 + c div 64, 128 + c mod 64]
      else if c < 65536 then [224 + c div 4096, 128 + c div 64 mod 64, 128 + c mod 64]
      else [240 + c div 262144, 128 + c div 4096 mod 64, 128 + c div 64 mod 64, 128 + c mod 64])"

text \<open>
  \<open>Buffer.from(value)\<close> on the code units read as numbers: a surrogate pair is one
  code point of four bytes, a surrogate without its partner is replaced by U+FFFD
  (\<open>EF BF BD\<close>).
\<close>

fun utf8_encode_units :: "nat list \<Rightarrow> nat list" where
  "utf8_encode_units [] = []"
| "utf8_encode_units [u] =
     (if is_high_surrogate u \<or> is_low_surrogate u then [239, 191, 189]
      else utf8_of_code_point u)"
| "utf8_encode_units (u # l # us) =
     (if is_high_surrogate u then
        (if is_low_surrogate l
         then utf8_of_code_point (65536 + (u - 55296) * 1024 + (l - 56320)) @ utf8_encode_units us
         else [239, 191, 189] @ utf8_encode_units (l # us))
      else if is_low_surrogate u then [239, 191, 189] @ utf8_encode_units (l # us)
      else utf8_of_code_point u @ utf8_encode_units (l # us))"

definition utf8_encode :: "jsstring \<Rightarrow> byte list" where
  "utf8_encode s = map of_nat (utf8_encode_units (map unat s))"

text \<open>The UTF-16 code units of one code point.\<close>

definition utf16_of_code_point :: "nat \<Rightarrow> nat list" where
  "utf16_of_code_point c =
     (if c < 65536 then [c]
      else [55296 + (c - 65536) div 1024, 56320 + (c - 65536) mod 1024])"

definition is_continuation :: "nat \<Rightarrow> bool" where
  "is_continuation b = (128 \<le> b \<and> b < 192)"

text \<open>
  \<open>buffer.toString()\<close> on the bytes read as numbers, to code points. A byte that cannot
  start a sequence, and a sequence cut short by a byte outside the range allowed at its
  place, give U+FFFD; decoding resumes at the offending byte. The second byte of a three
  or four byte sequence is restricted after \<open>E0\<close>, \<open>ED\<close>, \<open>F0\<close> and \<open>F4\<close>, which
  excludes overlong forms, surrogates and code points above \<open>0x10FFFF\<close>.
\<close>

definition second_byte_ok :: "nat \<Rightarrow> nat \<Rightarrow> bool" where
  "second_byte_ok b0 b1 =
     (if b0 = 224 then 160 \<le> b1 \<and> b1 < 192
      else if b0 = 237 then 128 \<le> b1 \<and> b1 < 160
      else if b0 = 240 then 144 \<le> b1 \<and> b1 < 192
      else if b0 = 244 then 128 \<le> b1 \<and> b1 < 144
      else is_continuation b1)"

fun utf8_decode_points :: "nat list \<Rightarrow> nat list" where
  "utf8_decode_points [] = []"
| "utf8_decode_points (b0 # bs) =
     (if b0 < 128 then b0 # utf8_decode_points bs
      else if 194 \<le> b0 \<and> b0 < 224 then
        (case bs of
           [] \<Rightarrow> [65533]
         | b1 # bs1 \<Rightarrow>
             if is_continuation b1
             then ((b0 - 192) * 64 + (b1 - 128)) # utf8_decode_points bs1
             else 65533 # utf8_decode_points bs)
      else if 224 \<le> b0 \<and> b0 < 240 then
        (case bs of
           [] \<Rightarrow> [65533]
         | b1 # bs1 \<Rightarrow>
             if second_byte_ok b0 b1 then
               (case bs1 of
                  [] \<Rightarrow> [65533]
                | b2 # bs2 \<Rightarrow>
                    if is_continuation b2
                    then ((b0 - 224) * 4096 + (b1 - 128) * 64 + (b2 - 128)) # utf8_decode_points bs2
                    else 65533 # utf8_decode_points bs1)
             else 65533 # utf8_decode_points bs)
      else if 240 \<le> b0 \<and> b0 < 245 then
        (case bs of
           [] \<Rightarrow> [65533]
         | b1 # bs1 \<Rightarrow>
             if second_byte_ok b0 b1 then
               (case bs1 of
                  [] \<Rightarrow> [65533]
                | b2 # bs2 \<Rightarrow>
                    if is_continuation b2 then
                      (case bs2 of
                         [] \<Rightarrow> [65533]
                       | b3 # bs3 \<Rightarrow>
                           if is_continuation b3
                           then ((b0 - 240) * 262144 + (b1 - 128) * 4096 + (b2 - 128) * 64 + (b3 - 128))
                                  # utf8_decode_points bs3
                           else 65533 # utf8_decode_points bs2)
                    else 65533 # utf8_decode_points bs1)
             else 65533 # utf8_decode_points bs)
      else 65533 # utf8_decode_points bs)"

definition utf8_decode :: "byte list \<Rightarrow> jsstring" where
  "utf8_decode bs = map of_nat (concat (map utf16_of_code_point (utf8_decode_points (map unat bs))))"


text \<open>
  A string is well formed when every high surrogate is followed by a low surrogate and
  no low surrogate stands alone. These are the strings UTF-8 can hold.
\<close>

fun well_formed_units :: "nat list \<Rightarrow> bool" where
  "well_formed_units [] = True"
| "well_formed_units [u] = (\<not> is_high_surrogate u \<and> \<not> is_low_surrogate u)"
| "well_formed_units (u # l # us) =
     (if is_high_surrogate u then is_low_surrogate l \<and> well_formed_units us
      else \<not> is_low_surrogate u \<and> well_formed_units (l # us))"

definition well_formed :: "jsstring \<Rightarrow> bool" where
  "well_formed s = well_formed_units (map unat s)"

subsection \<open>The serialised form of a ciphertext\<close>

text \<open>
  \<open>JSON.stringify(Array.from(encryptedBuffer))\<close>: the bytes in decimal, separated by
  commas, in square brackets.
\<close>

definition digit_char :: "nat \<Rightarrow> code_unit" where
  "digit_char n = of_nat (48 + n)"

definition decimal :: "nat \<Rightarrow> jsstring" where
  "decimal n =
     (if n < 10 then [digit_char n]
      else if n < 100 then [digit_char (n div 10), digit_char (n mod 10)]
      else [digit_char (n div 100), digit_char (n div 10 mod 10), digit_char (n mod 10)])"

fun join_commas :: "jsstring list \<Rightarrow> jsstring" where
  "join_commas [] = []"
| "join_commas [t] = t"
| "join_commas (t # u # ts) = t @ 44 # join_commas (u # ts)"

definition JSON_stringify :: "byte list \<Rightarrow> jsstring" where
  "JSON_stringify bs = 91 # join_commas (map (\<lambda>b. decimal (unat b)) bs) @ [93]"

text \<open>
  \<open>Buffer.from(JSON.parse(value))\<close> on a JSON array of integers: white space (space,
  tab, line feed, carriage return) is allowed around the brackets, the commas and the
  numbers; a number is an optional minus sign and decimal digits without a leading
  zero; \<open>Buffer.from\<close> takes each number modulo 256. The integers are read up to
  9007199254740991, below which a JavaScript number holds every integer exactly. On
  every other string the result is \<open>None\<close>: there the source raises (no JSON, or
  JSON that is neither an array nor a string), or builds a buffer from other JSON (a
  number with a fraction or an exponent or a larger one, an element that is no number,
  a string), which the model does not follow.
\<close>

fun split_commas :: "jsstring \<Rightarrow> jsstring list" where
  "split_commas [] = [[]]"
| "split_commas (c # cs) =
     (if c = 44 then [] # split_commas cs
      else (case split_commas cs of [] \<Rightarrow> [[c]] | t # ts \<Rightarrow> (c # t) # ts))"

definition is_digit :: "code_unit \<Rightarrow> bool" where
  "is_digit c = (48 \<le> unat c \<and> unat c < 58)"

definition decimal_value :: "jsstring \<Rightarrow> nat" where
  "decimal_value t = foldl (\<lambda>a c. 10 * a + (unat c - 48)) 0 t"

definition is_json_whitespace :: "code_unit \<Rightarrow> bool" where
  "is_json_whitespace c = (c = 32 \<or> c = 9 \<or> c = 10 \<or> c = 13)"

definition trim_whitespace :: "jsstring \<Rightarrow> jsstring" where
  "trim_whitespace s =
     rev (dropWhile is_json_whitespace (rev (dropWhile is_json_whitespace s)))"

definition parse_digits :: "jsstring \<Rightarrow> nat option" where
  "parse_digits t =
     (if t \<noteq> [] \<and> list_all is_digit t \<and> (length t = 1 \<or> hd t \<noteq> 48)
         \<and> decimal_value t \<le> 9007199254740991
      then Some (decimal_value t) else None)"

text \<open>One element of the array, as the byte \<open>Buffer.from\<close> makes of it.\<close>

definition parse_number :: "jsstring \<Rightarrow> byte option" where
  "parse_number t =
     (case t of
        [] \<Rightarrow> None
      | c # ds \<Rightarrow>
          if c = 45 then map_option (\<lambda>n. - of_nat n) (parse_digits ds)
          else map_option of_nat (parse_digits t))"

definition parse_byte_array :: "jsstring \<Rightarrow> byte list option" where
  "parse_byte_array s =
     (case trim_whitespace s of
        [] \<Rightarrow> None
      | c # cs \<Rightarrow>
          if c \<noteq> 91 \<or> cs = [] \<or> last cs \<noteq> 93 then None
          else
            let body = trim_whitespace (butlast cs)
            in if body = [] then Some []
               else those (map (\<lambda>t. parse_number (trim_whitespace t)) (split_commas body)))"

subsection \<open>The sodium library and the rest of the runtime\<close>

definition crypto_secretbox_KEYBYTES :: nat where
  "crypto_secretbox_KEYBYTES = 32"

definition crypto_secretbox_MACBYTES :: nat where
  "crypto_secretbox_MACBYTES = 16"

definition crypto_secretbox_NONCEBYTES :: nat where
  "crypto_secretbox_NONCEBYTES = 24"

text \<open>
  What the class takes from outside. \<open>crypto_secretbox_easy m n k\<close> is the content of
  the output buffer after the call with message \<open>m\<close>, nonce \<open>n\<close> and key \<open>k\<close>;
  \<open>crypto_secretbox_open_easy c n k\<close> is \<open>Some\<close> of the message when the call returns
  true and \<open>None\<close> when it returns false. \<open>sk_secure\<close> is the flag \<open>this.sk.secure\<close>,
  \<open>npm_package_version\<close> the environment variable and \<open>now\<close> the clock in seconds,
  printed.
\<close>

record runtime =
  crypto_secretbox_easy :: "byte list \<Rightarrow> byte list \<Rightarrow> byte list \<Rightarrow> byte list"
  crypto_secretbox_open_easy :: "byte list \<Rightarrow> byte list \<Rightarrow> byte list \<Rightarrow> byte list option"
  sk_secure :: bool
  npm_package_version :: "jsstring option"
  now :: jsstring

subsection \<open>The protected buffer of the secret key\<close>

datatype protection = NoAccess | ReadOnly | ReadWrite

record secure_buffer =
  bytes :: "byte list"
  prot :: protection

text \<open>\<open>sodium_malloc\<close> fills the region with the byte \<open>0xdb\<close> and leaves it accessible.\<close>

definition sodium_malloc :: "nat \<Rightarrow> secure_buffer" where
  "sodium_malloc n = \<lparr>bytes = replicate n 219, prot = ReadWrite\<rparr>"

definition sodium_mprotect_noaccess :: "secure_buffer \<Rightarrow> secure_buffer" where
  "sodium_mprotect_noaccess b = b\<lparr>prot := NoAccess\<rparr>"

definition sodium_mprotect_readonly :: "secure_buffer \<Rightarrow> secure_buffer" where
  "sodium_mprotect_readonly b = b\<lparr>prot := ReadOnly\<rparr>"

definition sodium_mprotect_readwrite :: "secure_buffer \<Rightarrow> secure_buffer" where
  "sodium_mprotect_readwrite b = b\<lparr>prot := ReadWrite\<rparr>"

text \<open>\<open>sodium_munlock\<close> overwrites the region with zeros before unlocking it.\<close>

definition sodium_munlock :: "secure_buffer \<Rightarrow> secure_buffer" where
  "sodium_munlock b = b\<lparr>bytes := replicate (length (bytes b)) 0\<rparr>"

subsection \<open>The object \<open>this.kv\<close>\<close>

text \<open>
  \<open>this.kv = {}\<close> is an ordinary object: the map holds its own properties, and
  \<open>in\<close> and the read \<open>this.kv[key]\<close> also see the properties of \<open>Object.prototype\<close>.
  An assignment to \<open>__proto__\<close> runs the setter of \<open>Object.prototype\<close>, which
  ignores a string; any other assignment writes an own property. \<open>delete\<close> removes
  an own property only.
\<close>

datatype js_value = JSString jsstring | JSBuiltin jsstring | JSUndefined | JSNull

definition object_prototype_names :: "jsstring list" where
  "object_prototype_names =
     map js [''constructor'', ''__defineGetter__'', ''__defineSetter__'', ''hasOwnProperty'',
             ''__lookupGetter__'', ''__lookupSetter__'', ''isPrototypeOf'',
             ''propertyIsEnumerable'', ''toString'', ''valueOf'', ''__proto__'',
             ''toLocaleString'']"

definition has_property :: "(jsstring \<rightharpoonup> jsstring) \<Rightarrow> jsstring \<Rightarrow> bool" where
  "has_property m key = (m key \<noteq> None \<or> key \<in> set object_prototype_names)"

definition get_property :: "(jsstring \<rightharpoonup> jsstring) \<Rightarrow> jsstring \<Rightarrow> js_value" where
  "get_property m key =
     (case m key of
        Some v \<Rightarrow> JSString v
      | None \<Rightarrow> if key \<in> set object_prototype_names then JSBuiltin key else JSUndefined)"

definition set_property :: "(jsstring \<rightharpoonup> jsstring) \<Rightarrow> jsstring \<Rightarrow> jsstring \<Rightarrow> (jsstring \<rightharpoonup> jsstring)" where
  "set_property m key v = (if key = js ''__proto__'' then m else m(key \<mapsto> v))"

definition delete_property :: "(jsstring \<rightharpoonup> jsstring) \<Rightarrow> jsstring \<Rightarrow> (jsstring \<rightharpoonup> jsstring)" where
  "delete_property m key = m(key := None)"

fun truthy :: "js_value \<Rightarrow> bool" where
  "truthy (JSString s) = (s \<noteq> [])"
| "truthy (JSBuiltin n) = True"
| "truthy JSUndefined = False"
| "truthy JSNull = False"

subsection \<open>Messages to the worker, and the engine\<close>

datatype message =
    STARTUP jsstring
  | SET jsstring jsstring
  | DEL jsstring
  | SHUTDOWN

text \<open>
  The errors the source throws. \<open>ConfigurationError\<close>, \<open>WrongKeyError\<close>,
  \<open>DecryptionError\<close> and \<open>FatalSecurityError\<close> are the four \<open>new Error(...)\<close> of the
  class, told apart by their messages; \<open>RangeError\<close> and \<open>TypeError\<close> come from the
  runtime; \<open>MalformedCipherText\<close> stands for whatever happens on a string that
  \<open>parse_byte_array\<close> does not read; \<open>SQLiteError\<close> is a statement on a missing table
  and \<open>SQLiteBusy\<close> a statement on a database that another handle keeps locked.
\<close>

datatype error =
    ConfigurationError
  | WrongKeyError
  | DecryptionError
  | FatalSecurityError
  | RangeError
  | TypeError
  | MalformedCipherText
  | SQLiteError
  | SQLiteBusy

text \<open>
  The fields of the class. \<open>worker\<close> is \<open>None\<close> while the field is undefined and
  otherwise holds the messages posted so far, oldest first.
\<close>

record HareDB =
  kv :: "jsstring \<rightharpoonup> jsstring"
  worker :: "message list option"
  sk :: "secure_buffer option"
  secure :: bool

subsection \<open>\<open>encrypt\<close> and \<open>decrypt\<close>\<close>

definition encrypt :: "runtime \<Rightarrow> jsstring \<Rightarrow> HareDB \<Rightarrow> (error + jsstring) \<times> HareDB" where
  "encrypt rt v this =
     (let unencryptedBuffer = utf8_encode v;
          nonce = replicate crypto_secretbox_NONCEBYTES 0
      in case sk this of
           None \<Rightarrow> (Inl TypeError, this)
         | Some b \<Rightarrow>
             let b1 = sodium_mprotect_readonly b;
                 encryptedBuffer = crypto_secretbox_easy rt unencryptedBuffer nonce (bytes b1);
                 b2 = sodium_mprotect_noaccess b1
             in (Inr (JSON_stringify encryptedBuffer), this\<lparr>sk := Some b2\<rparr>))"

definition decrypt :: "runtime \<Rightarrow> jsstring \<Rightarrow> HareDB \<Rightarrow> (error + jsstring) \<times> HareDB" where
  "decrypt rt v this =
     (case parse_byte_array v of
        None \<Rightarrow> (Inl MalformedCipherText, this)
      | Some encrypted \<Rightarrow>
          if length encrypted < crypto_secretbox_MACBYTES then (Inl RangeError, this)
          else
            (case sk this of
               None \<Rightarrow> (Inl TypeError, this)
             | Some b \<Rightarrow>
                 let b1 = sodium_mprotect_readonly b;
                     success = crypto_secretbox_open_easy rt encrypted
                                 (replicate crypto_secretbox_NONCEBYTES 0) (bytes b1);
                     b2 = sodium_mprotect_noaccess b1
                 in (case success of
                       Some decrypted \<Rightarrow> (Inr (utf8_decode decrypted), this\<lparr>sk := Some b2\<rparr>)
                     | None \<Rightarrow> (Inl DecryptionError, this\<lparr>sk := Some b2\<rparr>))))"

subsection \<open>\<open>set\<close>, \<open>get\<close>, \<open>del\<close> and \<open>close\<close>\<close>

definition set_kv :: "runtime \<Rightarrow> jsstring \<Rightarrow> jsstring \<Rightarrow> HareDB \<Rightarrow> (error + bool) \<times> HareDB" where
  "set_kv rt key0 value0 this0 =
     (case (if secure this0
            then (case encrypt rt key0 this0 of
                    (Inl err, t) \<Rightarrow> (Inl err, t)
                  | (Inr k, t) \<Rightarrow>
                      (case encrypt rt value0 t of
                         (Inl err, t') \<Rightarrow> (Inl err, t')
                       | (Inr v, t') \<Rightarrow> (Inr (k, v), t')))
            else (Inr (key0, value0), this0)) of
        (Inl err, this) \<Rightarrow> (Inl err, this)
      | (Inr (key, val), this) \<Rightarrow>
          let exists = has_property (kv this) key;
              this1 = this\<lparr>kv := set_property (kv this) key val\<rparr>
          in (case worker this1 of
                None \<Rightarrow> (Inl TypeError, this1)
              | Some posted \<Rightarrow> (Inr exists, this1\<lparr>worker := Some (posted @ [SET key val])\<rparr>)))"

definition get_kv :: "runtime \<Rightarrow> jsstring \<Rightarrow> HareDB \<Rightarrow> (error + js_value) \<times> HareDB" where
  "get_kv rt key0 this0 =
     (case (if secure this0 then encrypt rt key0 this0 else (Inr key0, this0)) of
        (Inl err, this) \<Rightarrow> (Inl err, this)
      | (Inr key, this) \<Rightarrow>
          let val = get_property (kv this) key
          in if truthy val \<and> secure this then
               (case val of
                  JSString c \<Rightarrow>
                    (case decrypt rt c this of
                       (Inl err, this') \<Rightarrow> (Inl err, this')
                     | (Inr p, this') \<Rightarrow> (Inr (JSString p), this'))
                | _ \<Rightarrow> (Inl MalformedCipherText, this))
             else if truthy val then (Inr val, this)
             else (Inr JSNull, this))"

definition del :: "runtime \<Rightarrow> jsstring \<Rightarrow> HareDB \<Rightarrow> (error + bool) \<times> HareDB" where
  "del rt key0 this0 =
     (case (if secure this0 then encrypt rt key0 this0 else (Inr key0, this0)) of
        (Inl err, this) \<Rightarrow> (Inl err, this)
      | (Inr key, this) \<Rightarrow>
          let exists = has_property (kv this) key
          in if exists then
               (let this1 = this\<lparr>kv := delete_property (kv this) key\<rparr>
                in case worker this1 of
                     None \<Rightarrow> (Inl TypeError, this1)
                   | Some posted \<Rightarrow> (Inr exists, this1\<lparr>worker := Some (posted @ [DEL key])\<rparr>))
             else (Inr exists, this))"

definition close :: "HareDB \<Rightarrow> (error + unit) \<times> HareDB" where
  "close this0 =
     (let this = (case worker this0 of
                    None \<Rightarrow> this0
                  | Some posted \<Rightarrow> this0\<lparr>worker := Some (posted @ [SHUTDOWN])\<rparr>)
      in if secure this then
           (case sk this of
              None \<Rightarrow> (Inl TypeError, this)
            | Some b \<Rightarrow> (Inr (), this\<lparr>sk := Some (sodium_munlock (sodium_mprotect_readwrite b))\<rparr>))
         else (Inr (), this))"

subsection \<open>The durable store\<close>

text \<open>
  A table with a text primary key is its list of rows in row order; a database holds
  the two tables of the schema, each absent until it is created. The files are a map
  from paths to databases. The path \<open>:memory:\<close> and the empty path name no file:
  every \<open>new Database\<close> on such a path opens a private, empty database, which is gone
  with its handle, so nothing is stored under such a path and a \<open>disk\<close> has no entry
  there.
\<close>

type_synonym table = "(jsstring \<times> jsstring) list"

record database =
  meta :: "table option"
  key_value :: "table option"

type_synonym disk = "jsstring \<rightharpoonup> database"

definition empty_database :: database where
  "empty_database = \<lparr>meta = None, key_value = None\<rparr>"

definition is_private_path :: "jsstring \<Rightarrow> bool" where
  "is_private_path p = (p = [] \<or> p = js '':memory:'')"

definition store_database :: "disk \<Rightarrow> jsstring \<Rightarrow> database \<Rightarrow> disk" where
  "store_database fs p d = (if is_private_path p then fs else fs(p \<mapsto> d))"

text \<open>
  SQLite keeps a text as UTF-8. The strings the constructor binds are ASCII and stored
  as they are; those the worker binds come from the caller and are converted as
  \<open>Buffer.from\<close> converts them.
\<close>

definition sqlite_text :: "jsstring \<Rightarrow> jsstring" where
  "sqlite_text s = utf8_decode (utf8_encode s)"

definition create_table_if_not_exists :: "table option \<Rightarrow> table" where
  "create_table_if_not_exists t = (case t of None \<Rightarrow> [] | Some rows \<Rightarrow> rows)"

definition insert_or_ignore :: "table \<Rightarrow> jsstring \<Rightarrow> jsstring \<Rightarrow> table" where
  "insert_or_ignore t k v = (if map_of t k = None then t @ [(k, v)] else t)"

definition insert_or_replace :: "table \<Rightarrow> jsstring \<Rightarrow> jsstring \<Rightarrow> table" where
  "insert_or_replace t k v = filter (\<lambda>row. fst row \<noteq> k) t @ [(k, v)]"

definition delete_where_key :: "table \<Rightarrow> jsstring \<Rightarrow> table" where
  "delete_where_key t k = filter (\<lambda>row. fst row \<noteq> k) t"

definition select_value :: "table \<Rightarrow> jsstring \<Rightarrow> jsstring option" where
  "select_value t k = map_of t k"

subsection \<open>The constructor\<close>

text \<open>The object before the constructor has assigned any field.\<close>

definition uninitialised :: HareDB where
  "uninitialised = \<lparr>kv = Map.empty, worker = None, sk = None, secure = False\<rparr>"

text \<open>
  The first block of the constructor. An absent and an empty \<open>secretKey\<close> are both
  falsy. \<open>this.sk.set(unsafeSk)\<close> raises a \<open>RangeError\<close> when the key has more bytes
  than the buffer, and otherwise overwrites the first bytes of the buffer.
\<close>

definition secure_key :: "runtime \<Rightarrow> jsstring option \<Rightarrow> HareDB \<Rightarrow> error \<times> HareDB + HareDB" where
  "secure_key rt secretKey this =
     (case secretKey of
        None \<Rightarrow> Inr (this\<lparr>secure := False\<rparr>)
      | Some s \<Rightarrow>
          if s = [] then Inr (this\<lparr>secure := False\<rparr>)
          else
            let unsafeSk = utf8_encode s;
                b = sodium_malloc crypto_secretbox_KEYBYTES
            in if length (bytes b) < length unsafeSk then Inl (RangeError, this\<lparr>sk := Some b\<rparr>)
               else
                 let b1 = b\<lparr>bytes := unsafeSk @ drop (length unsafeSk) (bytes b)\<rparr>;
                     this1 = this\<lparr>sk := Some (sodium_mprotect_noaccess b1)\<rparr>
                 in if \<not> sk_secure rt then
                      (case close this1 of
                         (Inl err, this2) \<Rightarrow> Inl (err, this2)
                       | (Inr u, this2) \<Rightarrow> Inl (FatalSecurityError, this2))
                    else Inr (this1\<lparr>secure := True\<rparr>))"

text \<open>The four rows every start tries to insert into \<open>meta\<close>.\<close>

definition startup_meta :: "runtime \<Rightarrow> bool \<Rightarrow> table \<Rightarrow> table" where
  "startup_meta rt sec t =
     (let t1 = insert_or_ignore t (js ''create_language'') (js ''ts_bun'');
          t2 = insert_or_ignore t1 (js ''version'')
                 (case npm_package_version rt of None \<Rightarrow> js ''0.0.0'' | Some v \<Rightarrow> v);
          t3 = insert_or_ignore t2 (js ''secure'') (if sec then js ''true'' else js ''false'')
      in insert_or_ignore t3 (js ''create_time'') (now rt))"

text \<open>
  The test string of a secure store: inserted unless present, then decrypted. Whatever
  is raised inside the \<open>try\<close> is replaced by the wrong-key error.
\<close>

definition check_test_string :: "runtime \<Rightarrow> HareDB \<Rightarrow> table \<Rightarrow> (error \<times> HareDB + HareDB) \<times> table" where
  "check_test_string rt this t =
     (if secure this then
        (case encrypt rt (js ''ENCRYPTED TEXT'') this of
           (Inl err, this1) \<Rightarrow> (Inl (err, this1), t)
         | (Inr c, this1) \<Rightarrow>
             let t1 = insert_or_ignore t (js ''secure_test_string'') c
             in (case select_value t1 (js ''secure_test_string'') of
                   None \<Rightarrow> (Inl (WrongKeyError, this1), t1)
                 | Some stored \<Rightarrow>
                     (case decrypt rt stored this1 of
                        (Inl err, this2) \<Rightarrow> (Inl (WrongKeyError, this2), t1)
                      | (Inr p, this2) \<Rightarrow> (Inr this2, t1))))
      else (Inr this, t))"

text \<open>\<open>this.kv[result.key] = result.value\<close> for every row, in row order.\<close>

definition load_rows :: "table \<Rightarrow> (jsstring \<rightharpoonup> jsstring) \<Rightarrow> (jsstring \<rightharpoonup> jsstring)" where
  "load_rows rows m = foldl (\<lambda>m' row. set_property m' (fst row) (snd row)) m rows"

text \<open>
  The constructor returns the engine, or the error with the object as far as it was
  built, and in both cases the files as it leaves them. Its handle is closed with
  \<open>db.close(false)\<close> while its prepared statements are alive, which defers the close;
  what this means for the worker is the field \<open>busy\<close> below.
\<close>

definition constructor :: "runtime \<Rightarrow> disk \<Rightarrow> jsstring \<Rightarrow> jsstring option \<Rightarrow> (error \<times> HareDB + HareDB) \<times> disk" where
  "constructor rt files dbPath secretKey =
     (case secure_key rt secretKey uninitialised of
        Inl failure \<Rightarrow> (Inl failure, files)
      | Inr this0 \<Rightarrow>
          let this1 = this0\<lparr>kv := Map.empty\<rparr>;
              db = (case files dbPath of None \<Rightarrow> empty_database | Some d \<Rightarrow> d);
              rows = create_table_if_not_exists (key_value db);
              m = startup_meta rt (secure this1) (create_table_if_not_exists (meta db))
          in (case select_value m (js ''secure'') of
                None \<Rightarrow> (Inl (TypeError, this1), store_database files dbPath \<lparr>meta = Some m, key_value = Some rows\<rparr>)
              | Some recorded \<Rightarrow>
                  if secure this1 \<noteq> (recorded = js ''true'')
                  then (Inl (ConfigurationError, this1),
                        store_database files dbPath \<lparr>meta = Some m, key_value = Some rows\<rparr>)
                  else
                    (case check_test_string rt this1 m of
                       (Inl failure, m1) \<Rightarrow>
                         (Inl failure, store_database files dbPath \<lparr>meta = Some m1, key_value = Some rows\<rparr>)
                     | (Inr this2, m1) \<Rightarrow>
                         (Inr (this2\<lparr>kv := load_rows rows (kv this2),
                                     worker := Some [STARTUP dbPath]\<rparr>),
                          store_database files dbPath \<lparr>meta = Some m1, key_value = Some rows\<rparr>))))"

subsection \<open>The worker\<close>

text \<open>
  The state of the worker script: the variable \<open>db\<close> (the path of the open database,
  \<open>None\<close> while undefined), the private database of a path that names no file, the
  files, and whether \<open>process.exit\<close> has run. \<open>busy\<close> tells whether another handle on
  the file, the one the constructor opened and whose close is deferred, still holds
  its lock when a statement of the worker runs: the worker sets no busy timeout, so
  its statement then raises at once.
\<close>

record worker_state =
  db :: "jsstring option"
  memory :: database
  files :: disk
  busy :: bool
  exited :: bool

text \<open>
  \<open>db.query(...).run(...)\<close> on the table \<open>key_value\<close>: preparing the statement raises
  when the table is missing, running it raises when the file is locked.
\<close>

definition update_key_value :: "(table \<Rightarrow> table) \<Rightarrow> worker_state \<Rightarrow> error + worker_state" where
  "update_key_value f w =
     (case db w of
        None \<Rightarrow> Inl TypeError
      | Some p \<Rightarrow>
          if is_private_path p then
            (case key_value (memory w) of
               None \<Rightarrow> Inl SQLiteError
             | Some rows \<Rightarrow> Inr (w\<lparr>memory := (memory w)\<lparr>key_value := Some (f rows)\<rparr>\<rparr>))
          else
            (case files w p of
               None \<Rightarrow> Inl SQLiteError
             | Some d \<Rightarrow>
                 (case key_value d of
                    None \<Rightarrow> Inl SQLiteError
                  | Some rows \<Rightarrow>
                      if busy w then Inl SQLiteBusy
                      else Inr (w\<lparr>files := (files w)(p \<mapsto> d\<lparr>key_value := Some (f rows)\<rparr>)\<rparr>))))"

fun onmessage :: "message \<Rightarrow> worker_state \<Rightarrow> error + worker_state" where
  "onmessage (STARTUP p) w =
     Inr (if is_private_path p then w\<lparr>db := Some p, memory := empty_database\<rparr>
          else w\<lparr>db := Some p,
                 files := (case files w p of
                             None \<Rightarrow> (files w)(p \<mapsto> empty_database)
                           | Some d \<Rightarrow> files w)\<rparr>)"
| "onmessage (SET k v) w =
     update_key_value (\<lambda>rows. insert_or_replace rows (sqlite_text k) (sqlite_text v)) w"
| "onmessage (DEL k) w = update_key_value (\<lambda>rows. delete_where_key rows (sqlite_text k)) w"
| "onmessage SHUTDOWN w =
     (case db w of None \<Rightarrow> Inl TypeError | Some p \<Rightarrow> Inr (w\<lparr>exited := True\<rparr>))"

text \<open>
  The worker takes the posted messages one at a time, oldest first. After
  \<open>process.exit\<close> nothing is handled any more. Nothing catches what a handler raises:
  the worker ends there, with the files as they were, and the messages behind are never
  handled. The result is the error that ended the worker, if any, and its last state.
\<close>

fun worker_run :: "message list \<Rightarrow> worker_state \<Rightarrow> error option \<times> worker_state" where
  "worker_run [] w = (None, w)"
| "worker_run (msg # msgs) w =
     (if exited w then (None, w)
      else (case onmessage msg w of
              Inl err \<Rightarrow> (Some err, w)
            | Inr w' \<Rightarrow> worker_run msgs w'))"

definition new_worker :: "disk \<Rightarrow> bool \<Rightarrow> worker_state" where
  "new_worker fs contended =
     \<lparr>db = None, memory = empty_database, files = fs, busy = contended, exited = False\<rparr>"

subsection \<open>A stand-in for the secret box, for closed examples\<close>

text \<open>
  A toy secret box with the interface of the library: the tag is a checksum of message,
  nonce and key repeated sixteen times, the body is the message shifted by the checksum
  of the key. It is used only where a theorem needs a concrete runtime to be evaluated.
\<close>

definition checksum_tag :: "byte list \<Rightarrow> byte list \<Rightarrow> byte list \<Rightarrow> byte list" where
  "checksum_tag m n k = replicate 16 (sum_list m + sum_list n + sum_list k)"

definition checksum_box_easy :: "byte list \<Rightarrow> byte list \<Rightarrow> byte list \<Rightarrow> byte list" where
  "checksum_box_easy m n k = checksum_tag m n k @ map (\<lambda>b. b + sum_list k) m"

definition checksum_box_open_easy :: "byte list \<Rightarrow> byte list \<Rightarrow> byte list \<Rightarrow> byte list option" where
  "checksum_box_open_easy c n k =
     (if length c < 16 then None
      else let m = map (\<lambda>b. b - sum_list k) (drop 16 c)
           in if take 16 c = checksum_tag m n k then Some m else None)"

definition example_runtime :: runtime where
  "example_runtime =
     \<lparr>crypto_secretbox_easy = checksum_box_easy,
      crypto_secretbox_open_easy = checksum_box_open_easy,
      sk_secure = True,
      npm_package_version = None,
      now = js ''1700000000''\<rparr>"

subsection \<open>Predicates and examples used in the statements\<close>

text \<open>The engine holds a key, and the key cannot be read.\<close>

definition key_locked :: "HareDB \<Rightarrow> bool" where
  "key_locked this = (case sk this of None \<Rightarrow> False | Some b \<Rightarrow> prot b = NoAccess)"

text \<open>
  What the library documents of the secret box: the ciphertext is longer than the message
  by the tag, and a ciphertext opens under the nonce and key that made it.
\<close>

definition secretbox_contract :: "runtime \<Rightarrow> bool" where
  "secretbox_contract rt =
     (\<forall>m n k. length (crypto_secretbox_easy rt m n k) = length m + crypto_secretbox_MACBYTES
              \<and> crypto_secretbox_open_easy rt (crypto_secretbox_easy rt m n k) n k = Some m)"

text \<open>
  The content of \<open>this.sk\<close> after \<open>this.sk.set(unsafeSk)\<close> for a secret key that fits:
  the UTF-8 bytes of the key, then what \<open>sodium_malloc\<close> had put there.
\<close>

definition secret_key_bytes :: "jsstring \<Rightarrow> byte list" where
  "secret_key_bytes s =
     utf8_encode s @ replicate (crypto_secretbox_KEYBYTES - length (utf8_encode s)) 219"

text \<open>The string \<open>encrypt\<close> returns for the plaintext \<open>x\<close> when the key buffer holds \<open>key\<close>.\<close>

definition seal :: "runtime \<Rightarrow> byte list \<Rightarrow> jsstring \<Rightarrow> jsstring" where
  "seal rt key x =
     JSON_stringify (crypto_secretbox_easy rt (utf8_encode x)
       (replicate crypto_secretbox_NONCEBYTES 0) key)"

text \<open>The error a run of the constructor raised, if any, and the object it had built.\<close>

definition raised :: "(error \<times> HareDB + HareDB) \<times> disk \<Rightarrow> error option" where
  "raised r = (case fst r of Inl (err, this) \<Rightarrow> Some err | Inr this \<Rightarrow> None)"

definition object_of :: "(error \<times> HareDB + HareDB) \<times> disk \<Rightarrow> HareDB" where
  "object_of r = (case fst r of Inl (err, this) \<Rightarrow> this | Inr this \<Rightarrow> this)"

text \<open>
  The restart test of the specification: construct an engine, \<open>set(k, v)\<close>, \<open>close()\<close>,
  let the worker take the messages posted to it, construct a new engine on the files
  the worker leaves, with the same path and secret key, and \<open>get(k)\<close>. \<open>contended\<close>
  tells whether the handle of the first constructor still holds the file while the
  worker runs. The result is what \<open>get\<close> returns or raises, or the error of the first
  call of the engine that raised; a worker that ends with an error raises nothing in the
  engine.
\<close>

definition restart_scenario ::
    "runtime \<Rightarrow> disk \<Rightarrow> jsstring \<Rightarrow> jsstring option \<Rightarrow> jsstring \<Rightarrow> jsstring \<Rightarrow> bool
       \<Rightarrow> error + js_value" where
  "restart_scenario rt fs dbPath secretKey k v contended =
     (case constructor rt fs dbPath secretKey of
        (Inl (err, this), fs0) \<Rightarrow> Inl err
      | (Inr e0, fs0) \<Rightarrow>
          (case set_kv rt k v e0 of
             (Inl err, e1) \<Rightarrow> Inl err
           | (Inr existed, e1) \<Rightarrow>
               (case close e1 of
                  (Inl err, e2) \<Rightarrow> Inl err
                | (Inr u, e2) \<Rightarrow>
                    (case worker e2 of
                       None \<Rightarrow> Inl TypeError
                     | Some posted \<Rightarrow>
                         (case constructor rt
                                 (files (snd (worker_run posted (new_worker fs0 contended))))
                                 dbPath secretKey of
                            (Inl (err, this), fs1) \<Rightarrow> Inl err
                          | (Inr e3, fs1) \<Rightarrow> fst (get_kv rt k e3))))))"

text \<open>
  The engines the constructor returns, under the stand-in runtime, for the empty set of
  files, the path \<open>db\<close> and the secret key \<open>k\<close>, or no secret key.
\<close>

definition example_engine :: HareDB where
  "example_engine =
     \<lparr>kv = Map.empty,
      worker = Some [STARTUP (js ''db'')],
      sk = Some \<lparr>bytes = 107 # replicate 31 219, prot = NoAccess\<rparr>,
      secure = True\<rparr>"

definition example_insecure_engine :: HareDB where
  "example_insecure_engine =
     \<lparr>kv = Map.empty, worker = Some [STARTUP (js ''db'')], sk = None, secure = False\<rparr>"

section \<open>Properties\<close>

subsection \<open>UTF-8: decoding undoes encoding on well-formed strings\<close>

lemma digits3:
  fixes c :: nat
  shows "c div 4096 * 4096 + c div 64 mod 64 * 64 + c mod 64 = c"
proof -
  define q where "q = c div 64"
  have alg: "a * 4096 + b * 64 = (a * 64 + b) * 64" for a b :: nat by simp
  have 1: "q * 64 + c mod 64 = c" by (simp add: q_def)
  have 3: "c div 4096 = q div 64" by (simp add: q_def div_mult2_eq)
  have "q div 64 * 4096 + q mod 64 * 64 = q * 64"
    unfolding alg by simp
  then show ?thesis using 1 unfolding 3 q_def by simp
qed

lemma digits4:
  fixes c :: nat
  shows "c div 262144 * 262144 + c div 4096 mod 64 * 4096 + c div 64 mod 64 * 64 + c mod 64 = c"
proof -
  define p where "p = c div 4096"
  have alg: "a * 262144 + b * 4096 = (a * 64 + b) * 4096" for a b :: nat by simp
  have 1: "p * 4096 + c div 64 mod 64 * 64 + c mod 64 = c"
    unfolding p_def by (rule digits3)
  have 3: "c div 262144 = p div 64" by (simp add: p_def div_mult2_eq)
  have "p div 64 * 262144 + p mod 64 * 4096 = p * 4096"
    unfolding alg by simp
  then show ?thesis using 1 unfolding 3 p_def by simp
qed

lemma decode_two:
  assumes "194 \<le> b0" "b0 < 224" "is_continuation b1"
  shows "utf8_decode_points (b0 # b1 # rest) = ((b0 - 192) * 64 + (b1 - 128)) # utf8_decode_points rest"
  using assms by simp

lemma decode_three:
  assumes "224 \<le> b0" "b0 < 240" "second_byte_ok b0 b1" "is_continuation b2"
  shows "utf8_decode_points (b0 # b1 # b2 # rest) =
     ((b0 - 224) * 4096 + (b1 - 128) * 64 + (b2 - 128)) # utf8_decode_points rest"
  using assms by simp

lemma decode_four:
  assumes "240 \<le> b0" "b0 < 245" "second_byte_ok b0 b1" "is_continuation b2" "is_continuation b3"
  shows "utf8_decode_points (b0 # b1 # b2 # b3 # rest) =
     ((b0 - 240) * 262144 + (b1 - 128) * 4096 + (b2 - 128) * 64 + (b3 - 128)) # utf8_decode_points rest"
  using assms by simp

lemma decode_of_code_point:
  assumes "c < 1114112" "\<not> (55296 \<le> c \<and> c < 57344)"
  shows "utf8_decode_points (utf8_of_code_point c @ rest) = c # utf8_decode_points rest"
proof -
  consider "c < 128" | "128 \<le> c \<and> c < 2048" | "2048 \<le> c \<and> c < 65536" | "65536 \<le> c"
    by linarith
  then show ?thesis
  proof cases
    case 1 then show ?thesis by (simp add: utf8_of_code_point_def)
  next
    case 2
    define a where "a = c div 64"
    define d where "d = c mod 64"
    have c: "a * 64 + d = c" and d: "d < 64" by (simp_all add: a_def d_def)
    have a: "194 \<le> 192 + a" "192 + a < 224" using 2 c d by linarith+
    have b: "is_continuation (128 + d)" using d by (simp add: is_continuation_def)
    have "utf8_decode_points ((192 + a) # (128 + d) # rest) = c # utf8_decode_points rest"
      using decode_two[OF a b, of rest] c by simp
    then show ?thesis using 2 by (simp add: utf8_of_code_point_def a_def d_def)
  next
    case 3
    define a where "a = c div 4096"
    define b where "b = c div 64 mod 64"
    define d where "d = c mod 64"
    have c: "a * 4096 + b * 64 + d = c" unfolding a_def b_def d_def by (rule digits3)
    have bd: "b < 64" "d < 64" by (simp_all add: b_def d_def)
    have a: "224 \<le> 224 + a" "224 + a < 240" using 3 c bd by linarith+
    have a0: "a = 0 \<Longrightarrow> 32 \<le> b" using 3 c bd by linarith
    have a13: "a = 13 \<Longrightarrow> b < 32" using 3 assms(2) c bd by linarith
    have s: "second_byte_ok (224 + a) (128 + b)"
      using a0 a13 bd a by (auto simp add: second_byte_ok_def is_continuation_def)
    have k: "is_continuation (128 + d)" using bd by (simp add: is_continuation_def)
    have "utf8_decode_points ((224 + a) # (128 + b) # (128 + d) # rest) = c # utf8_decode_points rest"
      using decode_three[OF a s k, of rest] c by simp
    then show ?thesis using 3 by (simp add: utf8_of_code_point_def a_def b_def d_def)
  next
    case 4
    define a where "a = c div 262144"
    define b where "b = c div 4096 mod 64"
    define e where "e = c div 64 mod 64"
    define d where "d = c mod 64"
    have c: "a * 262144 + b * 4096 + e * 64 + d = c" unfolding a_def b_def d_def e_def by (rule digits4)
    have bd: "b < 64" "d < 64" "e < 64" by (simp_all add: b_def d_def e_def)
    have a: "240 \<le> 240 + a" "240 + a < 245" using 4 assms(1) c bd by linarith+
    have a0: "a = 0 \<Longrightarrow> 16 \<le> b" using 4 c bd by linarith
    have a4: "a = 4 \<Longrightarrow> b < 16" using 4 assms(1) c bd by linarith
    have s: "second_byte_ok (240 + a) (128 + b)"
      using a0 a4 bd by (auto simp add: second_byte_ok_def is_continuation_def)
    have k: "is_continuation (128 + e)" "is_continuation (128 + d)" using bd by (simp_all add: is_continuation_def)
    have "utf8_decode_points ((240 + a) # (128 + b) # (128 + e) # (128 + d) # rest) = c # utf8_decode_points rest"
      using decode_four[OF a s k, of rest] c by simp
    then show ?thesis using 4 by (simp add: utf8_of_code_point_def a_def b_def d_def e_def)
  qed
qed

lemma utf16_of_pair:
  assumes "is_high_surrogate u" "is_low_surrogate l"
  shows "utf16_of_code_point (65536 + (u - 55296) * 1024 + (l - 56320)) = [u, l]"
proof -
  define h where "h = u - 55296"
  define t where "t = l - 56320"
  have u: "u = 55296 + h" and l: "l = 56320 + t" and t: "t < 1024"
    using assms unfolding h_def t_def is_high_surrogate_def is_low_surrogate_def by linarith+
  have "(h * 1024 + t) div 1024 = h" "(h * 1024 + t) mod 1024 = t" using t by simp_all
  then show ?thesis
    unfolding utf16_of_code_point_def h_def[symmetric] t_def[symmetric] u l by simp
qed

lemma pair_code_point_range:
  assumes "is_high_surrogate u" "is_low_surrogate l"
  shows "65536 + (u - 55296) * 1024 + (l - 56320) < 1114112"
    and "\<not> (55296 \<le> 65536 + (u - 55296) * 1024 + (l - 56320) \<and> 65536 + (u - 55296) * 1024 + (l - 56320) < 57344)"
  using assms unfolding is_high_surrogate_def is_low_surrogate_def by linarith+

lemma utf16_of_unit:
  "u < 65536 \<Longrightarrow> utf16_of_code_point u = [u]"
  by (simp add: utf16_of_code_point_def)

lemma decode_encode_units:
  assumes "well_formed_units us" "list_all (\<lambda>u. u < 65536) us"
  shows "concat (map utf16_of_code_point (utf8_decode_points (utf8_encode_units us @ rest)))
           = us @ concat (map utf16_of_code_point (utf8_decode_points rest))"
  using assms
proof (induction us rule: utf8_encode_units.induct)
  case 1
  then show ?case by simp
next
  case (2 u)
  then have "u < 1114112" "\<not> (55296 \<le> u \<and> u < 57344)"
    by (auto simp add: is_high_surrogate_def is_low_surrogate_def)
  from decode_of_code_point[OF this, of rest] 2 show ?case
    by (simp add: utf16_of_unit)
next
  case (3 u l us)
  show ?case
  proof (cases "is_high_surrogate u")
    case True
    with 3 have low: "is_low_surrogate l" and wf: "well_formed_units us"
      and bound: "list_all (\<lambda>u. u < 65536) us" by simp_all
    note r = pair_code_point_range[OF True low]
    show ?thesis
      using True low "3.IH"(1)[OF True low wf bound]
        decode_of_code_point[OF r, of "utf8_encode_units us @ rest"] utf16_of_pair[OF True low]
      by simp
  next
    case False
    with 3 have nlow: "\<not> is_low_surrogate u" and wf: "well_formed_units (l # us)"
      and bound: "list_all (\<lambda>u. u < 65536) (l # us)" and u: "u < 65536" by simp_all
    have r: "u < 1114112" "\<not> (55296 \<le> u \<and> u < 57344)"
      using False nlow u by (auto simp add: is_high_surrogate_def is_low_surrogate_def)
    show ?thesis
      using False nlow "3.IH"(4)[OF False nlow wf bound]
        decode_of_code_point[OF r, of "utf8_encode_units (l # us) @ rest"] u
      by (simp add: utf16_of_unit)
  qed
qed

lemma utf8_of_code_point_bytes:
  assumes "c < 1114112"
  shows "list_all (\<lambda>b. b < 256) (utf8_of_code_point c)"
proof -
  have "c div 64 < 32" if "c < 2048" using that by (simp add: less_mult_imp_div_less)
  moreover have "c div 4096 < 16" if "c < 65536" using that by (simp add: less_mult_imp_div_less)
  moreover have "c div 262144 < 5" using assms by (simp add: less_mult_imp_div_less)
  moreover have "c mod 64 < 64" "c div 64 mod 64 < 64" "c div 4096 mod 64 < 64" by simp_all
  ultimately show ?thesis
    unfolding utf8_of_code_point_def by (auto simp: less_imp_le)
qed

lemma utf8_encode_units_bytes:
  "list_all (\<lambda>u. u < 65536) us \<Longrightarrow> list_all (\<lambda>b. b < 256) (utf8_encode_units us)"
proof (induction us rule: utf8_encode_units.induct)
  case 1
  then show ?case by simp
next
  case (2 u)
  then show ?case using utf8_of_code_point_bytes[of u] by simp
next
  case (3 u l us)
  then show ?case
    using utf8_of_code_point_bytes[of u]
      utf8_of_code_point_bytes[OF pair_code_point_range(1), of u l]
    by simp
qed

lemma units_of_jsstring: "list_all (\<lambda>u. u < 65536) (map unat (s :: jsstring))"
proof -
  have "unat u < 65536" for u :: code_unit
    using unsigned_less[of u, where 'a = nat] by simp
  then show ?thesis by (simp add: list_all_iff)
qed

lemma map_unat_of_nat_bytes:
  "list_all (\<lambda>b. b < 256) bs \<Longrightarrow> map unat (map of_nat bs :: byte list) = bs"
  by (induction bs) (simp_all add: unat_of_nat)

lemma map_of_nat_unat: "map (of_nat \<circ> unat) s = (s :: 'a::len word list)"
  by (induction s) simp_all

lemma utf8_round_trip:
  assumes "well_formed s"
  shows "utf8_decode (utf8_encode s) = s"
proof -
  have b: "list_all (\<lambda>u. u < 65536) (map unat s)" by (rule units_of_jsstring)
  have "map unat (utf8_encode s) = utf8_encode_units (map unat s)"
    unfolding utf8_encode_def by (rule map_unat_of_nat_bytes[OF utf8_encode_units_bytes[OF b]])
  moreover have "concat (map utf16_of_code_point (utf8_decode_points (utf8_encode_units (map unat s)))) = map unat s"
    using decode_encode_units[OF assms[unfolded well_formed_def] b, of "[]"] by simp
  ultimately show ?thesis
    unfolding utf8_decode_def by (simp add: map_of_nat_unat)
qed

subsection \<open>The serialised form: parsing undoes \<open>JSON.stringify\<close>\<close>

lemma unat_digit_char: "n < 10 \<Longrightarrow> unat (digit_char n) = 48 + n"
  by (simp add: digit_char_def unat_of_nat del: of_nat_add)

lemma digit_char_not_comma: "n < 10 \<Longrightarrow> digit_char n \<noteq> 44"
proof
  assume "n < 10" "digit_char n = 44"
  then have "unat (digit_char n) = unat (44 :: code_unit)" by simp
  with \<open>n < 10\<close> show False by (simp add: unat_digit_char)
qed

lemma digit_char_zero: "n < 10 \<Longrightarrow> digit_char n = 48 \<longleftrightarrow> n = 0"
proof
  assume "n < 10" "digit_char n = 48"
  then have "unat (digit_char n) = unat (48 :: code_unit)" by simp
  with \<open>n < 10\<close> show "n = 0" by (simp add: unat_digit_char)
next
  assume "n = 0" then show "digit_char n = 48" by (simp add: digit_char_def)
qed

lemma is_digit_digit_char: "n < 10 \<Longrightarrow> is_digit (digit_char n)"
  by (simp add: is_digit_def unat_digit_char)

lemma decimal_digits:
  fixes n :: nat
  assumes "n < 256"
  shows "n div 100 < 10" "n div 10 mod 10 < 10" "n mod 10 < 10" "n < 100 \<Longrightarrow> n div 10 < 10"
    "100 \<le> n \<Longrightarrow> n div 100 \<noteq> 0" "10 \<le> n \<Longrightarrow> n < 100 \<Longrightarrow> n div 10 \<noteq> 0"
  using assms by (simp_all add: less_mult_imp_div_less)

lemma decimal_no_comma: "n < 256 \<Longrightarrow> 44 \<notin> set (decimal n)"
  using decimal_digits[of n] digit_char_not_comma
  by (auto simp add: decimal_def simp del: of_nat_add)

lemma decimal_not_empty: "decimal n \<noteq> []"
  by (simp add: decimal_def)

lemma decimal_value_decimal: "n < 256 \<Longrightarrow> decimal_value (decimal n) = n"
proof -
  assume n: "n < 256"
  have three: "10 * (10 * (n div 100) + n div 10 mod 10) + n mod 10 = n"
  proof -
    have "n div 100 = n div 10 div 10" by (simp add: div_mult2_eq)
    then have "10 * (n div 100) + n div 10 mod 10 = n div 10" by simp
    then show ?thesis by simp
  qed
  show ?thesis
    using decimal_digits[OF n] three
    by (simp add: decimal_def decimal_value_def unat_digit_char)
qed

lemma digit_not_whitespace: "is_digit c \<Longrightarrow> \<not> is_json_whitespace c"
  by (auto simp add: is_digit_def is_json_whitespace_def)

lemma decimal_all_digits: "n < 256 \<Longrightarrow> list_all is_digit (decimal n)"
  using decimal_digits[of n] by (simp add: decimal_def is_digit_digit_char)

lemma trim_whitespace_none:
  assumes "\<forall>c \<in> set s. \<not> is_json_whitespace c"
  shows "trim_whitespace s = s"
proof -
  have "dropWhile is_json_whitespace s = s"
    using assms by (cases s) simp_all
  moreover have "dropWhile is_json_whitespace (rev s) = rev s"
  proof (cases "rev s")
    case Nil
    then show ?thesis by simp
  next
    case (Cons c cs)
    then have "c \<in> set s" by (metis list.set_intros(1) set_rev)
    then show ?thesis using assms Cons by simp
  qed
  ultimately show ?thesis by (simp add: trim_whitespace_def)
qed

lemma parse_digits_decimal:
  assumes "n < 256"
  shows "parse_digits (decimal n) = Some n"
proof -
  have v: "decimal_value (decimal n) = n" by (rule decimal_value_decimal[OF assms])
  have d: "list_all is_digit (decimal n)" by (rule decimal_all_digits[OF assms])
  have l: "decimal n \<noteq> []" by (simp add: decimal_def)
  have z: "length (decimal n) = 1 \<or> hd (decimal n) \<noteq> 48"
    using decimal_digits[OF assms] by (auto simp add: decimal_def digit_char_zero)
  show ?thesis
    unfolding parse_digits_def using v d l z assms by simp
qed

lemma decimal_not_minus: "n < 256 \<Longrightarrow> hd (decimal n) \<noteq> 45"
proof
  assume n: "n < 256" and h: "hd (decimal n) = 45"
  have "is_digit (hd (decimal n))"
    using decimal_all_digits[OF n] decimal_not_empty[of n]
    by (cases "decimal n") simp_all
  then show False unfolding h by (simp add: is_digit_def)
qed

lemma parse_number_decimal:
  assumes "n < 256"
  shows "parse_number (trim_whitespace (decimal n)) = Some (of_nat n)"
proof -
  have "\<forall>c \<in> set (decimal n). \<not> is_json_whitespace c"
    using decimal_all_digits[OF assms] digit_not_whitespace by (auto simp add: list_all_iff)
  then have t: "trim_whitespace (decimal n) = decimal n" by (rule trim_whitespace_none)
  obtain c ds where c: "decimal n = c # ds" using decimal_not_empty[of n] by (cases "decimal n") auto
  have "c \<noteq> 45" using decimal_not_minus[OF assms] c by simp
  then show ?thesis
    unfolding t parse_number_def using parse_digits_decimal[OF assms] c by simp
qed

lemma split_commas_not_empty: "split_commas s \<noteq> []"
  by (induction s) (auto split: list.splits)

lemma split_commas_token:
  "44 \<notin> set t \<Longrightarrow>
   split_commas (t @ rest) = (t @ hd (split_commas rest)) # tl (split_commas rest)"
proof (induction t)
  case Nil
  then show ?case using split_commas_not_empty[of rest] by simp
next
  case (Cons c t)
  then show ?case by (simp split: list.splits)
qed

lemma split_commas_join:
  assumes "ts \<noteq> []" "\<forall>t \<in> set ts. 44 \<notin> set t"
  shows "split_commas (join_commas ts) = ts"
  using assms
proof (induction ts rule: join_commas.induct)
  case 1
  then show ?case by simp
next
  case (2 t)
  then show ?case using split_commas_token[of t "[]"] by simp
next
  case (3 t u ts)
  then have "split_commas (join_commas (u # ts)) = u # ts" by simp
  moreover have "44 \<notin> set t" using 3 by simp
  ultimately show ?case
    using split_commas_token[of t "44 # join_commas (u # ts)"] by simp
qed

lemma join_commas_empty: "join_commas ts = [] \<Longrightarrow> \<forall>t \<in> set ts. t \<noteq> [] \<Longrightarrow> ts = []"
  by (induction ts rule: join_commas.induct) auto

lemma those_parse_number:
  "those (map (\<lambda>t. parse_number (trim_whitespace t)) (map (\<lambda>b. decimal (unat b)) (bs :: byte list)))
     = Some bs"
proof (induction bs)
  case Nil
  then show ?case by simp
next
  case (Cons b bs)
  have "unat b < 256" using unsigned_less[of b, where 'a = nat] by simp
  then have "parse_number (trim_whitespace (decimal (unat b))) = Some b"
    by (simp add: parse_number_decimal)
  with Cons show ?case by simp
qed

lemma join_commas_set: "set (join_commas ts) \<subseteq> insert 44 (\<Union>t \<in> set ts. set t)"
  by (induction ts rule: join_commas.induct) auto

lemma stringify_body_no_whitespace:
  "\<forall>c \<in> set (join_commas (map (\<lambda>b. decimal (unat b)) (bs :: byte list))). \<not> is_json_whitespace c"
proof
  fix c assume "c \<in> set (join_commas (map (\<lambda>b. decimal (unat b)) bs))"
  then have "c = 44 \<or> (\<exists>b \<in> set bs. c \<in> set (decimal (unat b)))"
    using join_commas_set[of "map (\<lambda>b. decimal (unat b)) bs"] by auto
  then show "\<not> is_json_whitespace c"
  proof
    assume "c = 44" then show ?thesis by (simp add: is_json_whitespace_def)
  next
    assume "\<exists>b \<in> set bs. c \<in> set (decimal (unat b))"
    then obtain b :: byte where c: "c \<in> set (decimal (unat b))" by blast
    have "unat b < 256" using unsigned_less[of b, where 'a = nat] by simp
    from decimal_all_digits[OF this] c have "is_digit c" by (simp add: list_all_iff)
    then show ?thesis by (rule digit_not_whitespace)
  qed
qed

lemma stringify_no_whitespace: "\<forall>c \<in> set (JSON_stringify bs). \<not> is_json_whitespace c"
  using stringify_body_no_whitespace[of bs]
  by (auto simp add: JSON_stringify_def is_json_whitespace_def)

lemma parse_stringify: "parse_byte_array (JSON_stringify bs) = Some bs"
proof -
  let ?ts = "map (\<lambda>b. decimal (unat b)) bs"
  have t: "trim_whitespace (JSON_stringify bs) = JSON_stringify bs"
    by (rule trim_whitespace_none[OF stringify_no_whitespace])
  have b: "trim_whitespace (join_commas ?ts) = join_commas ?ts"
    by (rule trim_whitespace_none[OF stringify_body_no_whitespace])
  show ?thesis
  proof (cases "bs = []")
    case True
    then show ?thesis
      using t by (simp add: parse_byte_array_def JSON_stringify_def trim_whitespace_def)
  next
    case False
    have nc: "\<forall>t \<in> set ?ts. 44 \<notin> set t"
    proof
      fix t assume "t \<in> set ?ts"
      then obtain b :: byte where "t = decimal (unat b)" by auto
      moreover have "unat b < 256" using unsigned_less[of b, where 'a = nat] by simp
      ultimately show "44 \<notin> set t" by (simp add: decimal_no_comma)
    qed
    have ne: "?ts \<noteq> []" using False by simp
    have "\<forall>t \<in> set ?ts. t \<noteq> []" by (auto simp add: decimal_not_empty)
    then have j: "join_commas ?ts \<noteq> []" using join_commas_empty[of ?ts] ne by blast
    have "parse_byte_array (91 # join_commas ?ts @ [93]) = Some bs"
      unfolding parse_byte_array_def t[unfolded JSON_stringify_def]
      using j b split_commas_join[OF ne nc] those_parse_number[of bs]
      by (simp add: butlast_append Let_def)
    then show ?thesis by (simp add: JSON_stringify_def)
  qed
qed

lemma stringify_ascii: "\<forall>c \<in> set (JSON_stringify bs). unat c < 128"
proof
  fix c assume "c \<in> set (JSON_stringify bs)"
  then have "c = 91 \<or> c = 93 \<or> c = 44 \<or> (\<exists>b \<in> set bs. c \<in> set (decimal (unat b)))"
    using join_commas_set[of "map (\<lambda>b. decimal (unat b)) bs"]
    by (auto simp add: JSON_stringify_def)
  moreover have "c \<in> set (decimal (unat b)) \<Longrightarrow> unat c < 128" for b :: byte
  proof -
    assume c: "c \<in> set (decimal (unat b))"
    have "unat b < 256" using unsigned_less[of b, where 'a = nat] by simp
    from decimal_all_digits[OF this] c have "is_digit c" by (simp add: list_all_iff)
    then show ?thesis by (simp add: is_digit_def)
  qed
  ultimately show "unat c < 128" by auto
qed

text \<open>
  The parser also reads what \<open>JSON.stringify\<close> does not write: white space, and
  integers outside a byte, taken modulo 256.
\<close>

lemma parse_byte_array_lenient:
  "parse_byte_array (js ''[ 328,-1 ]'') = Some [72, 255]"
  by (simp add: parse_byte_array_def trim_whitespace_def is_json_whitespace_def js_def
      parse_number_def parse_digits_def is_digit_def decimal_value_def Let_def)

subsection \<open>\<open>encrypt\<close> and \<open>decrypt\<close> step by step\<close>

lemma encrypt_with_key:
  assumes "sk this = Some b"
  shows "encrypt rt v this =
           (Inr (JSON_stringify (crypto_secretbox_easy rt (utf8_encode v)
                   (replicate crypto_secretbox_NONCEBYTES 0) (bytes b))),
            this\<lparr>sk := Some (b\<lparr>prot := NoAccess\<rparr>)\<rparr>)"
  using assms
  by (simp add: encrypt_def sodium_mprotect_readonly_def sodium_mprotect_noaccess_def Let_def)

lemma encrypt_without_key: "sk this = None \<Longrightarrow> encrypt rt v this = (Inl TypeError, this)"
  by (simp add: encrypt_def)

lemma decrypt_with_key:
  assumes "sk this = Some b" "parse_byte_array c = Some encrypted"
    "crypto_secretbox_MACBYTES \<le> length encrypted"
  shows "decrypt rt c this =
           ((case crypto_secretbox_open_easy rt encrypted
                    (replicate crypto_secretbox_NONCEBYTES 0) (bytes b) of
               Some decrypted \<Rightarrow> Inr (utf8_decode decrypted)
             | None \<Rightarrow> Inl DecryptionError),
            this\<lparr>sk := Some (b\<lparr>prot := NoAccess\<rparr>)\<rparr>)"
  using assms
  by (simp add: decrypt_def sodium_mprotect_readonly_def sodium_mprotect_noaccess_def Let_def
      split: option.splits)

lemma decrypt_state:
  "snd (decrypt rt c this) = this \<or>
   (\<exists>b. sk this = Some b \<and> snd (decrypt rt c this) = this\<lparr>sk := Some (b\<lparr>prot := NoAccess\<rparr>)\<rparr>)"
  by (auto simp add: decrypt_def sodium_mprotect_readonly_def sodium_mprotect_noaccess_def Let_def
      split: option.splits)

lemma encrypt_state:
  "snd (encrypt rt v this) = this \<or>
   (\<exists>b. sk this = Some b \<and> snd (encrypt rt v this) = this\<lparr>sk := Some (b\<lparr>prot := NoAccess\<rparr>)\<rparr>)"
  by (cases "sk this") (simp_all add: encrypt_with_key encrypt_without_key)

lemma key_locked_encrypt: "key_locked this \<Longrightarrow> key_locked (snd (encrypt rt v this))"
  using encrypt_state[of rt v this] by (auto simp add: key_locked_def)

lemma key_locked_decrypt: "key_locked this \<Longrightarrow> key_locked (snd (decrypt rt c this))"
  using decrypt_state[of rt c this] by (auto simp add: key_locked_def)

lemma encrypt_frame:
  "kv (snd (encrypt rt v this)) = kv this \<and> worker (snd (encrypt rt v this)) = worker this
   \<and> secure (snd (encrypt rt v this)) = secure this"
  using encrypt_state[of rt v this] by auto

lemma decrypt_frame:
  "kv (snd (decrypt rt c this)) = kv this \<and> worker (snd (decrypt rt c this)) = worker this
   \<and> secure (snd (decrypt rt c this)) = secure this"
  using decrypt_state[of rt c this] by auto

subsection \<open>What \<open>get\<close>, \<open>set\<close> and \<open>del\<close> leave alone\<close>

lemma get_kv_frame:
  "kv (snd (get_kv rt k this)) = kv this \<and> worker (snd (get_kv rt k this)) = worker this"
proof (cases "secure this")
  case False
  then show ?thesis by (simp add: get_kv_def Let_def)
next
  case True
  obtain r t where e: "encrypt rt k this = (r, t)" by (cases "encrypt rt k this")
  have t: "kv t = kv this" "worker t = worker this" "secure t = secure this"
    using encrypt_frame[of rt k this] e by simp_all
  show ?thesis
  proof (cases r)
    case (Inl err)
    then show ?thesis using True e t by (simp add: get_kv_def)
  next
    case (Inr key)
    show ?thesis
    proof (cases "get_property (kv t) key")
      case (JSString c)
      obtain r' t' where d: "decrypt rt c t = (r', t')" by (cases "decrypt rt c t")
      have "kv t' = kv t" "worker t' = worker t"
        using decrypt_frame[of rt c t] d by simp_all
      then show ?thesis using True e t Inr JSString d
        by (cases r') (simp_all add: get_kv_def Let_def)
    qed (use True e t Inr in \<open>simp_all add: get_kv_def Let_def\<close>)
  qed
qed

lemma key_locked_get_kv: "key_locked this \<Longrightarrow> key_locked (snd (get_kv rt k this))"
proof (cases "secure this")
  case False
  then show "key_locked this \<Longrightarrow> ?thesis" by (simp add: get_kv_def Let_def)
next
  case True
  assume l: "key_locked this"
  obtain r t where e: "encrypt rt k this = (r, t)" by (cases "encrypt rt k this")
  have t: "key_locked t" "secure t = secure this"
    using key_locked_encrypt[OF l, of rt k] encrypt_frame[of rt k this] e by simp_all
  show ?thesis
  proof (cases r)
    case (Inl err)
    then show ?thesis using True e t by (simp add: get_kv_def)
  next
    case (Inr key)
    show ?thesis
    proof (cases "get_property (kv t) key")
      case (JSString c)
      obtain r' t' where d: "decrypt rt c t = (r', t')" by (cases "decrypt rt c t")
      have "key_locked t'"
        using key_locked_decrypt[OF t(1), of rt c] d by simp
      then show ?thesis using True e t Inr JSString d
        by (cases r') (simp_all add: get_kv_def Let_def)
    qed (use True e t Inr in \<open>simp_all add: get_kv_def Let_def\<close>)
  qed
qed

lemma key_locked_del: "key_locked this \<Longrightarrow> key_locked (snd (del rt k this))"
proof (cases "secure this")
  case False
  then show "key_locked this \<Longrightarrow> ?thesis"
    by (auto simp add: del_def Let_def key_locked_def split: option.splits)
next
  case True
  assume l: "key_locked this"
  obtain r t where e: "encrypt rt k this = (r, t)" by (cases "encrypt rt k this")
  have t: "key_locked t"
    using key_locked_encrypt[OF l, of rt k] e by simp
  show ?thesis
  proof (cases r)
    case (Inl err)
    then show ?thesis using True e t by (simp add: del_def)
  next
    case (Inr key)
    then show ?thesis using True e t
      by (auto simp add: del_def Let_def key_locked_def split: option.splits)
  qed
qed

lemma key_locked_set_kv: "key_locked this \<Longrightarrow> key_locked (snd (set_kv rt k v this))"
proof (cases "secure this")
  case False
  then show "key_locked this \<Longrightarrow> ?thesis"
    by (auto simp add: set_kv_def Let_def key_locked_def split: option.splits)
next
  case True
  assume l: "key_locked this"
  obtain r t where e: "encrypt rt k this = (r, t)" by (cases "encrypt rt k this")
  have t: "key_locked t"
    using key_locked_encrypt[OF l, of rt k] e by simp
  show ?thesis
  proof (cases r)
    case (Inl err)
    then show ?thesis using True e t by (simp add: set_kv_def)
  next
    case (Inr key)
    obtain r' t' where e': "encrypt rt v t = (r', t')" by (cases "encrypt rt v t")
    have t': "key_locked t'"
      using key_locked_encrypt[OF t, of rt v] e' by simp
    show ?thesis
    proof (cases r')
      case (Inl err)
      then show ?thesis using True e e' t' Inr by (simp add: set_kv_def)
    next
      case (Inr val)
      then show ?thesis using True e e' t' \<open>r = Inr key\<close>
        by (auto simp add: set_kv_def Let_def key_locked_def split: option.splits)
    qed
  qed
qed

text \<open>
  C10. \<open>get\<close> is read-only: in whatever state the engine is and whatever the key, the
  index \<open>kv\<close> after the call is the index before it, and so is the list of messages
  posted to the worker; this holds when \<open>get\<close> returns and when it raises.
\<close>

theorem get_is_read_only:
  "kv (snd (get_kv rt k this)) = kv this \<and> worker (snd (get_kv rt k this)) = worker this"
  by (rule get_kv_frame)

theorem get_is_read_only_witness:
  "kv (snd (get_kv example_runtime (js ''a'') example_engine)) = kv example_engine
   \<and> worker (snd (get_kv example_runtime (js ''a'') example_engine)) = worker example_engine"
  by (rule get_is_read_only)

subsection \<open>The stand-in runtime\<close>

lemma example_runtime_fields:
  "crypto_secretbox_easy example_runtime = checksum_box_easy"
  "crypto_secretbox_open_easy example_runtime = checksum_box_open_easy"
  "sk_secure example_runtime"
  "npm_package_version example_runtime = None"
  by (simp_all add: example_runtime_def)

lemma checksum_box_opens:
  "checksum_box_open_easy (checksum_box_easy m n k) n k = Some m"
proof -
  have "map (\<lambda>b. b - sum_list k) (map (\<lambda>b. b + sum_list k) m) = m"
    by (induction m) simp_all
  then show ?thesis
    by (simp add: checksum_box_open_easy_def checksum_box_easy_def checksum_tag_def)
qed

lemma example_runtime_contract: "secretbox_contract example_runtime"
  by (simp add: secretbox_contract_def example_runtime_fields checksum_box_opens
      crypto_secretbox_MACBYTES_def)
     (simp add: checksum_box_easy_def checksum_tag_def)

lemma example_engine_fields:
  "sk example_engine = Some \<lparr>bytes = 107 # replicate 31 219, prot = NoAccess\<rparr>"
  "secure example_engine"
  "kv example_engine = Map.empty"
  "worker example_engine = Some [STARTUP (js ''db'')]"
  by (simp_all add: example_engine_def)

lemma example_insecure_engine_fields:
  "sk example_insecure_engine = None"
  "\<not> secure example_insecure_engine"
  "kv example_insecure_engine = Map.empty"
  "worker example_insecure_engine = Some [STARTUP (js ''db'')]"
  by (simp_all add: example_insecure_engine_def)

lemma example_key_sum: "sum_list (107 # replicate 31 219 :: byte list) = 240"
  by (simp add: sum_list_replicate)

lemma utf8_encode_a: "utf8_encode (js ''a'') = [97]"
  by (simp add: utf8_encode_def js_def utf8_of_code_point_def is_high_surrogate_def
      is_low_surrogate_def)

lemma example_ciphertext:
  "checksum_box_easy [97] (replicate crypto_secretbox_NONCEBYTES 0) (107 # replicate 31 219)
     = replicate 17 81"
proof -
  have "sum_list (replicate crypto_secretbox_NONCEBYTES (0 :: byte)) = 0"
    by (simp add: sum_list_replicate)
  moreover have "replicate 17 (81 :: byte) = replicate 16 81 @ [81]"
  proof -
    have "(17 :: nat) = 16 + 1" by simp
    then show ?thesis by (simp only: replicate_add) simp
  qed
  ultimately show ?thesis
    unfolding checksum_box_easy_def checksum_tag_def example_key_sum
    by simp
qed

subsection \<open>Encryption is a function of plaintext and key\<close>

lemma encrypt_again:
  assumes "sk this = Some b"
  shows "fst (encrypt rt p (snd (encrypt rt p this))) = fst (encrypt rt p this)"
proof -
  let ?t' = "this\<lparr>sk := Some (b\<lparr>prot := NoAccess\<rparr>)\<rparr>"
  have "sk ?t' = Some (b\<lparr>prot := NoAccess\<rparr>)" by simp
  from encrypt_with_key[OF this, of rt p] encrypt_with_key[OF assms, of rt p]
  show ?thesis by simp
qed

text \<open>
  C1, as the code has it. Encryption is deterministic: the nonce is the all-zero buffer
  at every call, so two calls of \<open>encrypt\<close> on the same plaintext under the same key
  return the same ciphertext, the serialised secret box of the UTF-8 bytes of the
  plaintext under the zero nonce. (\<open>get\<close> and \<open>del\<close> find a key by encrypting it
  again, and \<open>decrypt\<close> opens with the zero nonce.)
\<close>

theorem encrypt_deterministic:
  assumes "sk this = Some b"
  shows "fst (encrypt rt p (snd (encrypt rt p this))) = fst (encrypt rt p this)
       \<and> fst (encrypt rt p this) =
           Inr (JSON_stringify (crypto_secretbox_easy rt (utf8_encode p)
                  (replicate crypto_secretbox_NONCEBYTES 0) (bytes b)))"
  using encrypt_again[OF assms] encrypt_with_key[OF assms] by simp

theorem encrypt_deterministic_witness:
  "fst (encrypt example_runtime (js ''a'') (snd (encrypt example_runtime (js ''a'') example_engine)))
     = fst (encrypt example_runtime (js ''a'') example_engine)
   \<and> fst (encrypt example_runtime (js ''a'') example_engine) = Inr (JSON_stringify (replicate 17 81))"
  using encrypt_deterministic[OF example_engine_fields(1), of example_runtime "js ''a''"]
  by (simp add: example_runtime_fields utf8_encode_a example_ciphertext)

text \<open>
  The claim C1 as stated fails: the second of two calls of \<open>encrypt\<close> on the plaintext
  \<open>a\<close> returns the ciphertext of the first.
\<close>

theorem encrypt_twice_counterexample:
  "\<not> (fst (encrypt example_runtime (js ''a'') (snd (encrypt example_runtime (js ''a'') example_engine)))
        \<noteq> fst (encrypt example_runtime (js ''a'') example_engine))"
  using encrypt_again[OF example_engine_fields(1), of example_runtime "js ''a''"] by simp

subsection \<open>Round trip and failure of \<open>decrypt\<close>\<close>

lemma decrypt_serialised:
  assumes "sk this = Some b" "crypto_secretbox_MACBYTES \<le> length c"
  shows "decrypt rt (JSON_stringify c) this =
           ((case crypto_secretbox_open_easy rt c
                    (replicate crypto_secretbox_NONCEBYTES 0) (bytes b) of
               Some decrypted \<Rightarrow> Inr (utf8_decode decrypted)
             | None \<Rightarrow> Inl DecryptionError),
            this\<lparr>sk := Some (b\<lparr>prot := NoAccess\<rparr>)\<rparr>)"
  by (rule decrypt_with_key[OF assms(1) parse_stringify assms(2)])

lemma decrypt_encrypt:
  assumes "secretbox_contract rt" "sk this = Some b"
  shows "fst (decrypt rt (projr (fst (encrypt rt v this))) (snd (encrypt rt v this)))
           = Inr (utf8_decode (utf8_encode v))"
proof -
  let ?n = "replicate crypto_secretbox_NONCEBYTES 0"
  let ?c = "crypto_secretbox_easy rt (utf8_encode v) ?n (bytes b)"
  let ?t' = "this\<lparr>sk := Some (b\<lparr>prot := NoAccess\<rparr>)\<rparr>"
  have e: "encrypt rt v this = (Inr (JSON_stringify ?c), ?t')"
    by (rule encrypt_with_key[OF assms(2)])
  have k: "sk ?t' = Some (b\<lparr>prot := NoAccess\<rparr>)" by simp
  have l: "crypto_secretbox_MACBYTES \<le> length ?c"
    using assms(1) by (simp add: secretbox_contract_def)
  have o: "crypto_secretbox_open_easy rt ?c ?n (bytes b) = Some (utf8_encode v)"
    using assms(1) by (simp add: secretbox_contract_def)
  show ?thesis
    unfolding e using decrypt_serialised[OF k l, of rt] o by simp
qed

text \<open>
  C9, as the code has it. \<open>decrypt\<close> of what \<open>encrypt\<close> returned for the string \<open>v\<close>,
  under the same key, returns the UTF-8 decoding of the UTF-8 encoding of \<open>v\<close>; the
  secret box is only asked to open what it sealed. For every well-formed \<open>v\<close> (one
  without an unpaired surrogate) this is \<open>v\<close> itself.
\<close>

theorem decrypt_encrypt_round_trip:
  assumes "secretbox_contract rt" "sk this = Some b"
  shows "fst (decrypt rt (projr (fst (encrypt rt v this))) (snd (encrypt rt v this)))
           = Inr (utf8_decode (utf8_encode v))
       \<and> (well_formed v \<longrightarrow>
            fst (decrypt rt (projr (fst (encrypt rt v this))) (snd (encrypt rt v this))) = Inr v)"
  using decrypt_encrypt[OF assms, of v] utf8_round_trip[of v] by simp

lemma well_formed_a: "well_formed (js ''a'')"
  by (simp add: well_formed_def js_def is_high_surrogate_def is_low_surrogate_def)

theorem decrypt_encrypt_round_trip_witness:
  "secretbox_contract example_runtime
   \<and> sk example_engine = Some \<lparr>bytes = 107 # replicate 31 219, prot = NoAccess\<rparr>
   \<and> well_formed (js ''a'')
   \<and> fst (decrypt example_runtime (projr (fst (encrypt example_runtime (js ''a'') example_engine)))
            (snd (encrypt example_runtime (js ''a'') example_engine))) = Inr (js ''a'')"
proof -
  from decrypt_encrypt_round_trip[OF example_runtime_contract example_engine_fields(1), of "js ''a''"]
  have "well_formed (js ''a'') \<longrightarrow>
      fst (decrypt example_runtime (projr (fst (encrypt example_runtime (js ''a'') example_engine)))
            (snd (encrypt example_runtime (js ''a'') example_engine))) = Inr (js ''a'')"
    by (rule conjunct2)
  from mp[OF this well_formed_a] show ?thesis
    by (intro conjI example_runtime_contract example_engine_fields(1) well_formed_a)
qed

lemma utf8_lone_surrogate: "utf8_decode (utf8_encode [55296]) = [65533]"
proof -
  have "utf8_encode [55296] = [239, 191, 189]"
    by (simp add: utf8_encode_def is_high_surrogate_def)
  moreover have "utf8_decode [239, 191, 189] = [65533]"
    by (simp add: utf8_decode_def second_byte_ok_def is_continuation_def utf16_of_code_point_def)
  ultimately show ?thesis by simp
qed

text \<open>
  The claim C9 as stated fails on the string that consists of the unpaired high surrogate
  U+D800: its UTF-8 bytes are those of U+FFFD, and this is what comes back.
\<close>

theorem round_trip_counterexample:
  "fst (decrypt example_runtime (projr (fst (encrypt example_runtime [55296] example_engine)))
         (snd (encrypt example_runtime [55296] example_engine))) = Inr [65533]
   \<and> [65533] \<noteq> [55296 :: code_unit]"
  using decrypt_encrypt[OF example_runtime_contract example_engine_fields(1), of "[55296]"]
    utf8_lone_surrogate by simp


lemma example_tampered:
  "checksum_box_open_easy (replicate 16 81 @ [82]) (replicate crypto_secretbox_NONCEBYTES 0)
     (107 # replicate 31 219) = None"
proof -
  have "sum_list (replicate crypto_secretbox_NONCEBYTES (0 :: byte)) = 0"
    by (simp add: sum_list_replicate)
  then show ?thesis
    unfolding checksum_box_open_easy_def checksum_tag_def example_key_sum
    by (simp add: Let_def)
qed


subsection \<open>Reading what was written\<close>

lemma stringify_not_inherited: "JSON_stringify c \<notin> set object_prototype_names"
  by (simp add: JSON_stringify_def object_prototype_names_def js_def)

lemma stringify_not_proto: "JSON_stringify c \<noteq> js ''__proto__''"
  by (simp add: JSON_stringify_def js_def)

lemma stringify_not_empty: "JSON_stringify c \<noteq> []"
  by (simp add: JSON_stringify_def)

lemma get_kv_insecure_hit:
  assumes "\<not> secure this" "kv this k = Some v" "v \<noteq> []"
  shows "get_kv rt k this = (Inr (JSString v), this)"
  using assms by (simp add: get_kv_def get_property_def Let_def)

lemma get_kv_insecure_empty:
  assumes "\<not> secure this" "kv this k = Some []"
  shows "get_kv rt k this = (Inr JSNull, this)"
  using assms by (simp add: get_kv_def get_property_def Let_def)

lemma get_kv_secure_hit:
  assumes "secretbox_contract rt" "sk this = Some b" "secure this"
    and "kv this (JSON_stringify (crypto_secretbox_easy rt (utf8_encode k)
            (replicate crypto_secretbox_NONCEBYTES 0) (bytes b)))
          = Some (JSON_stringify (crypto_secretbox_easy rt (utf8_encode v)
            (replicate crypto_secretbox_NONCEBYTES 0) (bytes b)))"
  shows "fst (get_kv rt k this) = Inr (JSString (utf8_decode (utf8_encode v)))"
proof -
  let ?n = "replicate crypto_secretbox_NONCEBYTES 0"
  let ?E = "\<lambda>x. crypto_secretbox_easy rt (utf8_encode x) ?n (bytes b)"
  let ?t' = "this\<lparr>sk := Some (b\<lparr>prot := NoAccess\<rparr>)\<rparr>"
  have e: "encrypt rt k this = (Inr (JSON_stringify (?E k)), ?t')"
    by (rule encrypt_with_key[OF assms(2)])
  have k: "sk ?t' = Some (b\<lparr>prot := NoAccess\<rparr>)" by simp
  have l: "crypto_secretbox_MACBYTES \<le> length (?E v)"
    using assms(1) by (simp add: secretbox_contract_def)
  have o: "crypto_secretbox_open_easy rt (?E v) ?n (bytes b) = Some (utf8_encode v)"
    using assms(1) by (simp add: secretbox_contract_def)
  have d: "decrypt rt (JSON_stringify (?E v)) ?t'
             = (Inr (utf8_decode (utf8_encode v)), ?t'\<lparr>sk := Some (b\<lparr>prot := NoAccess\<rparr>)\<rparr>)"
    using decrypt_serialised[OF k l, of rt] o by simp
  have g: "get_property (kv ?t') (JSON_stringify (?E k)) = JSString (JSON_stringify (?E v))"
    using assms(4) by (simp add: get_property_def)
  show ?thesis
    unfolding get_kv_def using assms(3) e g d
    by (simp add: Let_def stringify_not_empty)
qed

lemma set_kv_insecure:
  assumes "\<not> secure this" "worker this = Some posted"
  shows "set_kv rt k v this =
           (Inr (has_property (kv this) k),
            this\<lparr>kv := set_property (kv this) k v, worker := Some (posted @ [SET k v])\<rparr>)"
  using assms by (simp add: set_kv_def Let_def)

lemma set_kv_secure:
  assumes "secure this" "sk this = Some b" "worker this = Some posted"
  shows "set_kv rt k v this =
          (let key = JSON_stringify (crypto_secretbox_easy rt (utf8_encode k)
                       (replicate crypto_secretbox_NONCEBYTES 0) (bytes b));
               val = JSON_stringify (crypto_secretbox_easy rt (utf8_encode v)
                       (replicate crypto_secretbox_NONCEBYTES 0) (bytes b))
           in (Inr (kv this key \<noteq> None),
               this\<lparr>kv := (kv this)(key \<mapsto> val), worker := Some (posted @ [SET key val]),
                    sk := Some (b\<lparr>prot := NoAccess\<rparr>)\<rparr>))"
proof -
  let ?t' = "this\<lparr>sk := Some (b\<lparr>prot := NoAccess\<rparr>)\<rparr>"
  have k: "sk ?t' = Some (b\<lparr>prot := NoAccess\<rparr>)" by simp
  show ?thesis
    unfolding set_kv_def
    using assms(1,3) encrypt_with_key[OF assms(2), of rt k] encrypt_with_key[OF k, of rt v]
    by (simp add: Let_def has_property_def set_property_def stringify_not_inherited
        stringify_not_proto)
qed

lemma del_secure:
  assumes "secure this" "sk this = Some b" "worker this = Some posted"
  shows "del rt k this =
          (let key = JSON_stringify (crypto_secretbox_easy rt (utf8_encode k)
                       (replicate crypto_secretbox_NONCEBYTES 0) (bytes b))
           in if kv this key \<noteq> None
              then (Inr True,
                    this\<lparr>kv := (kv this)(key := None), worker := Some (posted @ [DEL key]),
                         sk := Some (b\<lparr>prot := NoAccess\<rparr>)\<rparr>)
              else (Inr False, this\<lparr>sk := Some (b\<lparr>prot := NoAccess\<rparr>)\<rparr>))"
  unfolding del_def
  using assms(1,3) encrypt_with_key[OF assms(2), of rt k]
  by (simp add: Let_def has_property_def delete_property_def stringify_not_inherited)

lemma del_insecure:
  assumes "\<not> secure this" "worker this = Some posted"
  shows "del rt k this =
          (if has_property (kv this) k
           then (Inr True,
                 this\<lparr>kv := (kv this)(k := None), worker := Some (posted @ [DEL k])\<rparr>)
           else (Inr False, this))"
  unfolding del_def using assms by (simp add: Let_def delete_property_def)

text \<open>
  Away from the two failing inputs below, \<open>get\<close> after \<open>set\<close> and \<open>del\<close> of an
  absent key behave as documented.
\<close>

lemma get_after_set_insecure:
  assumes "\<not> secure this" "worker this = Some posted" "v \<noteq> []" "k \<noteq> js ''__proto__''"
  shows "fst (get_kv rt k (snd (set_kv rt k v this))) = Inr (JSString v)"
proof -
  let ?t = "this\<lparr>kv := set_property (kv this) k v, worker := Some (posted @ [SET k v])\<rparr>"
  have n: "\<not> secure ?t" using assms(1) by simp
  have h: "kv ?t k = Some v" using assms(4) by (simp add: set_property_def)
  show ?thesis
    unfolding set_kv_insecure[OF assms(1,2)]
    using get_kv_insecure_hit[OF n h assms(3), of rt] by simp
qed

lemma get_after_set_secure:
  assumes "secretbox_contract rt" "secure this" "sk this = Some b" "worker this = Some posted"
    and "well_formed v"
  shows "fst (get_kv rt k (snd (set_kv rt k v this))) = Inr (JSString v)"
proof -
  let ?n = "replicate crypto_secretbox_NONCEBYTES 0"
  let ?key = "JSON_stringify (crypto_secretbox_easy rt (utf8_encode k) ?n (bytes b))"
  let ?val = "JSON_stringify (crypto_secretbox_easy rt (utf8_encode v) ?n (bytes b))"
  let ?t = "this\<lparr>kv := (kv this)(?key \<mapsto> ?val), worker := Some (posted @ [SET ?key ?val]),
                 sk := Some (b\<lparr>prot := NoAccess\<rparr>)\<rparr>"
  have s: "snd (set_kv rt k v this) = ?t"
    using set_kv_secure[OF assms(2,3,4), of rt k v] by (simp add: Let_def)
  have f: "sk ?t = Some (b\<lparr>prot := NoAccess\<rparr>)" "secure ?t" using assms(2) by simp_all
  have h: "kv ?t (JSON_stringify (crypto_secretbox_easy rt (utf8_encode k) ?n
                    (bytes (b\<lparr>prot := NoAccess\<rparr>))))
             = Some (JSON_stringify (crypto_secretbox_easy rt (utf8_encode v) ?n
                    (bytes (b\<lparr>prot := NoAccess\<rparr>))))"
    by simp
  show ?thesis
    unfolding s
    using get_kv_secure_hit[OF assms(1) f h] utf8_round_trip[OF assms(5)] by simp
qed

lemma del_of_absent_key:
  assumes "worker this = Some posted"
    and "(secure this \<and> sk this \<noteq> None) \<or> (\<not> secure this \<and> k \<notin> set object_prototype_names)"
    and "kv (snd (encrypt rt k this)) (if secure this then projr (fst (encrypt rt k this)) else k) = None"
  shows "fst (del rt k this) = Inr False
       \<and> kv (snd (del rt k this)) = kv this \<and> worker (snd (del rt k this)) = worker this"
proof (cases "secure this")
  case True
  with assms(2) obtain b where b: "sk this = Some b" by auto
  have "kv this (JSON_stringify (crypto_secretbox_easy rt (utf8_encode k)
                   (replicate crypto_secretbox_NONCEBYTES 0) (bytes b))) = None"
    using assms(3) True encrypt_with_key[OF b, of rt k] by simp
  then show ?thesis
    using del_secure[OF True b assms(1), of rt k] by (simp add: Let_def)
next
  case False
  with assms(2) have n: "k \<notin> set object_prototype_names" by simp
  have "kv this k = None"
    using assms(3) False encrypt_frame[of rt k this] by simp
  then show ?thesis
    using del_insecure[OF False assms(1), of rt k] n by (simp add: has_property_def)
qed

text \<open>
  C2 at the failing input. Without a secret key, \<open>set\<close> of the key \<open>k\<close> to the empty
  string stores the empty string under \<open>k\<close>, and the \<open>get\<close> of \<open>k\<close> that follows
  returns \<open>null\<close>: the empty string is falsy in the test \<open>if (value)\<close>.
\<close>

theorem get_after_set_empty_string:
  "kv (snd (set_kv example_runtime (js ''k'') [] example_insecure_engine)) (js ''k'') = Some []
   \<and> fst (get_kv example_runtime (js ''k'')
            (snd (set_kv example_runtime (js ''k'') [] example_insecure_engine))) = Inr JSNull"
proof -
  let ?t = "snd (set_kv example_runtime (js ''k'') [] example_insecure_engine)"
  have s: "?t = example_insecure_engine
             \<lparr>kv := set_property (kv example_insecure_engine) (js ''k'') [],
              worker := Some ([STARTUP (js ''db'')] @ [SET (js ''k'') []])\<rparr>"
    using set_kv_insecure[OF example_insecure_engine_fields(2,4), of example_runtime "js ''k''" "[]"]
    by simp
  have k: "kv ?t (js ''k'') = Some []"
    unfolding s by (simp add: set_property_def js_def)
  have n: "\<not> secure ?t"
    unfolding s by (simp add: example_insecure_engine_fields)
  show ?thesis
    using k get_kv_insecure_empty[OF n k, of example_runtime] by simp
qed

text \<open>
  C8 at the failing input. Without a secret key and with an empty index, \<open>del\<close> of the
  key \<open>toString\<close> returns true and posts a \<open>DEL\<close> message: \<open>in\<close> finds the property
  that the object \<open>{}\<close> inherits.
\<close>

theorem del_inherited_name:
  "kv example_insecure_engine (js ''toString'') = None
   \<and> fst (del example_runtime (js ''toString'') example_insecure_engine) = Inr True
   \<and> worker (snd (del example_runtime (js ''toString'') example_insecure_engine))
       = Some [STARTUP (js ''db''), DEL (js ''toString'')]"
proof -
  have "has_property (kv example_insecure_engine) (js ''toString'')"
    by (simp add: has_property_def object_prototype_names_def)
  then show ?thesis
    using del_insecure[OF example_insecure_engine_fields(2,4), of example_runtime "js ''toString''"]
    by (simp add: example_insecure_engine_fields)
qed

subsection \<open>Tables\<close>

lemma map_of_insert_or_ignore:
  "map_of (insert_or_ignore t k v) k' =
     (case map_of t k' of Some x \<Rightarrow> Some x | None \<Rightarrow> if k' = k then Some v else None)"
  by (auto simp add: insert_or_ignore_def map_add_def split: option.splits)

lemma select_empty: "select_value [] k = None"
  by (simp add: select_value_def)

lemma select_insert_or_ignore_other:
  "k' \<noteq> k \<Longrightarrow> select_value (insert_or_ignore t k v) k' = select_value t k'"
  by (simp add: select_value_def map_of_insert_or_ignore split: option.splits)

lemma select_insert_or_ignore_same:
  "select_value (insert_or_ignore t k v) k =
     (case select_value t k of Some x \<Rightarrow> Some x | None \<Rightarrow> Some v)"
  by (simp add: select_value_def map_of_insert_or_ignore split: option.splits)

lemma insert_or_ignore_present:
  "select_value t k = Some x \<Longrightarrow> insert_or_ignore t k v = t"
  by (simp add: select_value_def insert_or_ignore_def)

lemma meta_names_differ:
  "js ''secure'' \<noteq> js ''create_language''" "js ''secure'' \<noteq> js ''version''"
  "js ''secure'' \<noteq> js ''create_time''" "js ''secure_test_string'' \<noteq> js ''create_language''"
  "js ''secure_test_string'' \<noteq> js ''version''" "js ''secure_test_string'' \<noteq> js ''secure''"
  "js ''secure_test_string'' \<noteq> js ''create_time''" "js ''secure'' \<noteq> js ''secure_test_string''"
  "js ''true'' \<noteq> js ''false''" "js ''false'' \<noteq> js ''true''"
  by (simp_all add: js_def)

lemma select_startup_meta_secure:
  "select_value (startup_meta rt sec t) (js ''secure'') =
     (case select_value t (js ''secure'') of
        Some x \<Rightarrow> Some x
      | None \<Rightarrow> Some (if sec then js ''true'' else js ''false''))"
  unfolding startup_meta_def Let_def
  by (simp add: select_insert_or_ignore_other select_insert_or_ignore_same meta_names_differ
      split: option.splits)

lemma select_startup_meta_test_string:
  "select_value (startup_meta rt sec t) (js ''secure_test_string'') =
     select_value t (js ''secure_test_string'')"
  unfolding startup_meta_def Let_def
  by (simp add: select_insert_or_ignore_other meta_names_differ)

lemma startup_meta_again:
  "startup_meta rt' sec' (startup_meta rt sec t) = startup_meta rt sec t"
proof -
  have p: "\<And>t k v. select_value t k \<noteq> None \<Longrightarrow> insert_or_ignore t k v = t"
    by (auto simp add: insert_or_ignore_present)
  have q: "\<And>t k v k' v'. select_value t k \<noteq> None \<Longrightarrow> select_value (insert_or_ignore t k' v') k \<noteq> None"
    by (auto simp add: select_value_def map_of_insert_or_ignore split: option.splits)
  have r: "\<And>t k v. select_value (insert_or_ignore t k v) k \<noteq> None"
    by (simp add: select_insert_or_ignore_same split: option.splits)
  show ?thesis
    unfolding startup_meta_def Let_def
    by (simp add: p q r)
qed

lemma startup_meta_after_test_string:
  "startup_meta rt' sec' (insert_or_ignore (startup_meta rt sec t) (js ''secure_test_string'') c)
     = insert_or_ignore (startup_meta rt sec t) (js ''secure_test_string'') c"
proof -
  have p: "\<And>t k v. select_value t k \<noteq> None \<Longrightarrow> insert_or_ignore t k v = t"
    by (auto simp add: insert_or_ignore_present)
  have q: "\<And>t k v k' v'. select_value t k \<noteq> None \<Longrightarrow> select_value (insert_or_ignore t k' v') k \<noteq> None"
    by (auto simp add: select_value_def map_of_insert_or_ignore split: option.splits)
  have r: "\<And>t k v. select_value (insert_or_ignore t k v) k \<noteq> None"
    by (simp add: select_insert_or_ignore_same split: option.splits)
  show ?thesis
    unfolding startup_meta_def Let_def
    by (simp add: p q r)
qed

lemma load_rows_snoc:
  "load_rows (rows @ [row]) m = set_property (load_rows rows m) (fst row) (snd row)"
  by (simp add: load_rows_def)

lemma load_rows_replaced:
  assumes "k \<noteq> js ''__proto__''"
  shows "load_rows (insert_or_replace rows k v) m k = Some v"
  using assms by (simp add: insert_or_replace_def load_rows_snoc set_property_def)

lemma load_rows_empty: "load_rows [] m = m"
  by (simp add: load_rows_def)

subsection \<open>The constructor, case by case\<close>

lemma relock_same:
  assumes "sk this = Some b" "prot b = NoAccess"
  shows "this\<lparr>sk := Some (b\<lparr>prot := NoAccess\<rparr>)\<rparr> = this"
proof -
  have "b\<lparr>prot := NoAccess\<rparr> = b" using assms(2) by (cases b) simp
  then show ?thesis using assms(1) by (cases this) simp
qed

lemma encrypt_locked:
  assumes "sk this = Some b" "prot b = NoAccess"
  shows "encrypt rt v this = (Inr (seal rt (bytes b) v), this)"
  using encrypt_with_key[OF assms(1), of rt v] relock_same[OF assms]
  by (simp add: seal_def)

lemma decrypt_locked_state:
  assumes "sk this = Some b" "prot b = NoAccess"
  shows "snd (decrypt rt c this) = this"
  using decrypt_state[of rt c this] relock_same[OF assms] assms(1) by auto

lemma secure_key_absent:
  assumes "secretKey = None \<or> secretKey = Some []"
  shows "secure_key rt secretKey this = Inr (this\<lparr>secure := False\<rparr>)"
  using assms by (auto simp add: secure_key_def)

lemma secure_key_fits:
  assumes "s \<noteq> []" "length (utf8_encode s) \<le> crypto_secretbox_KEYBYTES" "sk_secure rt"
  shows "secure_key rt (Some s) this =
           Inr (this\<lparr>sk := Some \<lparr>bytes = secret_key_bytes s, prot = NoAccess\<rparr>, secure := True\<rparr>)"
  using assms
  by (simp add: secure_key_def sodium_malloc_def sodium_mprotect_noaccess_def Let_def
      secret_key_bytes_def)

lemma secure_key_too_long:
  assumes "s \<noteq> []" "crypto_secretbox_KEYBYTES < length (utf8_encode s)"
  shows "secure_key rt (Some s) this = Inl (RangeError, this\<lparr>sk := Some (sodium_malloc crypto_secretbox_KEYBYTES)\<rparr>)"
  using assms by (simp add: secure_key_def sodium_malloc_def Let_def)

lemma secure_key_not_secured:
  assumes "s \<noteq> []" "length (utf8_encode s) \<le> crypto_secretbox_KEYBYTES" "\<not> sk_secure rt"
    "\<not> secure this"
  shows "\<exists>that. secure_key rt (Some s) this = Inl (FatalSecurityError, that)
           \<and> kv that = kv this \<and> worker that = (case worker this of None \<Rightarrow> None | Some posted \<Rightarrow> Some (posted @ [SHUTDOWN]))"
  using assms
  by (simp add: secure_key_def sodium_malloc_def sodium_mprotect_noaccess_def Let_def close_def
      split: option.splits)

lemma constructor_raises_early:
  assumes "secure_key rt secretKey uninitialised = Inl (err, this)"
  shows "constructor rt fs p secretKey = (Inl (err, this), fs)"
  using assms by (simp add: constructor_def)

lemma constructor_insecure:
  assumes "secretKey = None \<or> secretKey = Some []"
  shows "constructor rt fs p secretKey =
     (let d = (case fs p of None \<Rightarrow> empty_database | Some d \<Rightarrow> d);
          rows = create_table_if_not_exists (key_value d);
          m = startup_meta rt False (create_table_if_not_exists (meta d));
          fs' = store_database fs p \<lparr>meta = Some m, key_value = Some rows\<rparr>
      in if select_value m (js ''secure'') = Some (js ''true'')
         then (Inl (ConfigurationError, uninitialised), fs')
         else (Inr \<lparr>kv = load_rows rows Map.empty, worker = Some [STARTUP p], sk = None,
                    secure = False\<rparr>, fs'))"
proof -
  have u: "uninitialised\<lparr>secure := False, kv := Map.empty\<rparr> = uninitialised"
    by (simp add: uninitialised_def)
  show ?thesis
    unfolding constructor_def secure_key_absent[OF assms] Let_def
    by (simp add: select_startup_meta_secure check_test_string_def u split: option.splits)
       (simp add: uninitialised_def)
qed

lemma constructor_secure:
  assumes "s \<noteq> []" "length (utf8_encode s) \<le> crypto_secretbox_KEYBYTES" "sk_secure rt"
  shows "constructor rt fs p (Some s) =
     (let this = \<lparr>kv = Map.empty, worker = None,
                  sk = Some \<lparr>bytes = secret_key_bytes s, prot = NoAccess\<rparr>, secure = True\<rparr>;
          d = (case fs p of None \<Rightarrow> empty_database | Some d \<Rightarrow> d);
          rows = create_table_if_not_exists (key_value d);
          m = startup_meta rt True (create_table_if_not_exists (meta d));
          m1 = insert_or_ignore m (js ''secure_test_string'')
                 (seal rt (secret_key_bytes s) (js ''ENCRYPTED TEXT''))
      in if select_value m (js ''secure'') \<noteq> Some (js ''true'')
         then (Inl (ConfigurationError, this), store_database fs p \<lparr>meta = Some m, key_value = Some rows\<rparr>)
         else (case select_value m1 (js ''secure_test_string'') of
                 None \<Rightarrow> (Inl (WrongKeyError, this), store_database fs p \<lparr>meta = Some m1, key_value = Some rows\<rparr>)
               | Some stored \<Rightarrow>
                   (case fst (decrypt rt stored this) of
                      Inl err \<Rightarrow> (Inl (WrongKeyError, this),
                                  store_database fs p \<lparr>meta = Some m1, key_value = Some rows\<rparr>)
                    | Inr plain \<Rightarrow> (Inr (this\<lparr>kv := load_rows rows Map.empty,
                                              worker := Some [STARTUP p]\<rparr>),
                                    store_database fs p \<lparr>meta = Some m1, key_value = Some rows\<rparr>))))"
proof -
  let ?K = "\<lparr>kv = Map.empty, worker = None,
                sk = Some \<lparr>bytes = secret_key_bytes s, prot = NoAccess\<rparr>, secure = True\<rparr>"
  have k: "sk ?K = Some \<lparr>bytes = secret_key_bytes s, prot = NoAccess\<rparr>"
    "prot \<lparr>bytes = secret_key_bytes s, prot = NoAccess\<rparr> = NoAccess" by simp_all
  have s: "secure_key rt (Some s) uninitialised = Inr ?K"
    unfolding secure_key_fits[OF assms] by (simp add: uninitialised_def)
  have e: "encrypt rt (js ''ENCRYPTED TEXT'') ?K
             = (Inr (seal rt (secret_key_bytes s) (js ''ENCRYPTED TEXT'')), ?K)"
    using encrypt_locked[OF k, of rt] by simp
  have c: "check_test_string rt ?K m =
      (let m1 = insert_or_ignore m (js ''secure_test_string'')
                 (seal rt (secret_key_bytes s) (js ''ENCRYPTED TEXT''))
       in case select_value m1 (js ''secure_test_string'') of
            None \<Rightarrow> (Inl (WrongKeyError, ?K), m1)
          | Some stored \<Rightarrow>
              (case fst (decrypt rt stored ?K) of
                 Inl err \<Rightarrow> (Inl (WrongKeyError, ?K), m1)
               | Inr plain \<Rightarrow> (Inr ?K, m1)))" for m
  proof (cases "select_value (insert_or_ignore m (js ''secure_test_string'')
                 (seal rt (secret_key_bytes s) (js ''ENCRYPTED TEXT''))) (js ''secure_test_string'')")
    case None
    then show ?thesis unfolding check_test_string_def e by (simp add: Let_def)
  next
    case (Some stored)
    obtain r where r: "decrypt rt stored ?K = (r, ?K)"
      using decrypt_locked_state[OF k, of rt stored] by (metis prod.collapse)
    show ?thesis
      unfolding check_test_string_def e using Some r
      by (cases r) (simp_all add: Let_def)
  qed
  have t: "?K\<lparr>kv := Map.empty\<rparr> = ?K" by simp
  show ?thesis
    unfolding constructor_def s sum.case t c Let_def
    by (simp add: select_startup_meta_secure split: option.splits sum.splits)
qed

lemma store_database_file: "\<not> is_private_path p \<Longrightarrow> store_database fs p d = fs(p \<mapsto> d)"
  by (simp add: store_database_def)

lemma store_database_private: "is_private_path p \<Longrightarrow> store_database fs p d = fs"
  by (simp add: store_database_def)

lemma db_names_file: "\<not> is_private_path (js ''db'')"
  by (simp add: is_private_path_def js_def)

subsection \<open>Stores the constructor creates\<close>

lemma decrypt_seal:
  assumes "secretbox_contract rt" "sk this = Some b"
  shows "fst (decrypt rt (seal rt (bytes b) x) this) = Inr (utf8_decode (utf8_encode x))"
proof -
  let ?n = "replicate crypto_secretbox_NONCEBYTES 0"
  let ?c = "crypto_secretbox_easy rt (utf8_encode x) ?n (bytes b)"
  have l: "crypto_secretbox_MACBYTES \<le> length ?c"
    using assms(1) by (simp add: secretbox_contract_def)
  have o: "crypto_secretbox_open_easy rt ?c ?n (bytes b) = Some (utf8_encode x)"
    using assms(1) by (simp add: secretbox_contract_def)
  show ?thesis
    unfolding seal_def using decrypt_serialised[OF assms(2) l, of rt] o by simp
qed

lemma constructor_insecure_creates:
  assumes "fs p = None" "secretKey = None \<or> secretKey = Some []"
  shows "constructor rt fs p secretKey =
           (Inr \<lparr>kv = Map.empty, worker = Some [STARTUP p], sk = None, secure = False\<rparr>,
            store_database fs p \<lparr>meta = Some (startup_meta rt False []), key_value = Some []\<rparr>)"
  unfolding constructor_insecure[OF assms(2)] Let_def
  using assms(1)
  by (simp add: empty_database_def create_table_if_not_exists_def select_startup_meta_secure
      select_empty load_rows_empty meta_names_differ)

lemma constructor_secure_creates:
  assumes "fs p = None" "s \<noteq> []" "length (utf8_encode s) \<le> crypto_secretbox_KEYBYTES"
    "sk_secure rt" "secretbox_contract rt"
  shows "constructor rt fs p (Some s) =
           (Inr \<lparr>kv = Map.empty, worker = Some [STARTUP p],
                 sk = Some \<lparr>bytes = secret_key_bytes s, prot = NoAccess\<rparr>, secure = True\<rparr>,
            store_database fs p
              \<lparr>meta = Some (insert_or_ignore (startup_meta rt True [])
                              (js ''secure_test_string'')
                              (seal rt (secret_key_bytes s) (js ''ENCRYPTED TEXT''))),
               key_value = Some []\<rparr>)"
proof -
  let ?K = "\<lparr>kv = Map.empty, worker = None,
             sk = Some \<lparr>bytes = secret_key_bytes s, prot = NoAccess\<rparr>, secure = True\<rparr>"
  let ?c = "seal rt (secret_key_bytes s) (js ''ENCRYPTED TEXT'')"
  have "sk ?K = Some \<lparr>bytes = secret_key_bytes s, prot = NoAccess\<rparr>" by simp
  from decrypt_seal[OF assms(5) this, of "js ''ENCRYPTED TEXT''"]
  have d: "fst (decrypt rt ?c ?K) = Inr (utf8_decode (utf8_encode (js ''ENCRYPTED TEXT'')))"
    by simp
  have t: "select_value (insert_or_ignore (startup_meta rt True []) (js ''secure_test_string'') ?c)
             (js ''secure_test_string'') = Some ?c"
    by (simp add: select_insert_or_ignore_same select_startup_meta_test_string select_empty)
  show ?thesis
    unfolding constructor_secure[OF assms(2,3,4)] Let_def
    using assms(1) t d
    by (simp add: empty_database_def create_table_if_not_exists_def select_startup_meta_secure
        select_empty load_rows_empty)
qed

lemma secret_key_bytes_k: "secret_key_bytes (js ''k'') = 107 # replicate 31 219"
  by (simp add: secret_key_bytes_def utf8_encode_def js_def utf8_of_code_point_def
      is_high_surrogate_def is_low_surrogate_def crypto_secretbox_KEYBYTES_def)

lemma example_key_fits:
  "js ''k'' \<noteq> []" "length (utf8_encode (js ''k'')) \<le> crypto_secretbox_KEYBYTES"
  by (simp_all add: utf8_encode_def js_def utf8_of_code_point_def
      is_high_surrogate_def is_low_surrogate_def crypto_secretbox_KEYBYTES_def)

lemma example_engine_constructed:
  "constructor example_runtime Map.empty (js ''db'') (Some (js ''k'')) =
     (Inr example_engine,
      [js ''db'' \<mapsto> \<lparr>meta = Some (insert_or_ignore (startup_meta example_runtime True [])
                                     (js ''secure_test_string'')
                                     (seal example_runtime (secret_key_bytes (js ''k''))
                                        (js ''ENCRYPTED TEXT''))),
                       key_value = Some []\<rparr>])"
  using constructor_secure_creates[OF _ example_key_fits example_runtime_fields(3)
      example_runtime_contract, of Map.empty "js ''db''"]
  by (simp add: example_engine_def secret_key_bytes_k store_database_file[OF db_names_file])

lemma example_insecure_engine_constructed:
  "constructor example_runtime Map.empty (js ''db'') None =
     (Inr example_insecure_engine,
      [js ''db'' \<mapsto> \<lparr>meta = Some (startup_meta example_runtime False []), key_value = Some []\<rparr>])"
  using constructor_insecure_creates[of Map.empty "js ''db''" None example_runtime]
  by (simp add: example_insecure_engine_def store_database_file[OF db_names_file])

lemma utf8_encode_units_ascii:
  "list_all (\<lambda>u. u < 128) us \<Longrightarrow> utf8_encode_units us = us"
  by (induction us rule: utf8_encode_units.induct)
     (simp_all add: is_high_surrogate_def is_low_surrogate_def utf8_of_code_point_def)

lemma long_key: "crypto_secretbox_KEYBYTES < length (utf8_encode (replicate 33 97))"
proof -
  have "utf8_encode_units (map unat (replicate 33 (97 :: code_unit))) = map unat (replicate 33 (97 :: code_unit))"
    by (rule utf8_encode_units_ascii) (simp add: list_all_iff)
  then show ?thesis
    by (simp add: utf8_encode_def crypto_secretbox_KEYBYTES_def)
qed

lemma long_key_not_empty: "replicate 33 (97 :: code_unit) \<noteq> []"
  by simp

lemma constructor_long_key:
  assumes "s \<noteq> []" "crypto_secretbox_KEYBYTES < length (utf8_encode s)"
  shows "raised (constructor rt fs p (Some s)) = Some RangeError"
  using constructor_raises_early[OF secure_key_too_long[OF assms], of rt fs p]
  by (simp add: raised_def)

subsection \<open>Mode mismatch\<close>

lemma mismatch_without_key:
  assumes "fs p = Some d" "meta d = Some m" "select_value m (js ''secure'') = Some (js ''true'')"
    "secretKey = None \<or> secretKey = Some []"
  shows "raised (constructor rt fs p secretKey) = Some ConfigurationError
       \<and> kv (object_of (constructor rt fs p secretKey)) = Map.empty
       \<and> worker (object_of (constructor rt fs p secretKey)) = None"
  unfolding constructor_insecure[OF assms(4)] Let_def
  using assms(1,2,3)
  by (simp add: create_table_if_not_exists_def select_startup_meta_secure raised_def object_of_def
      uninitialised_def)

lemma mismatch_with_key:
  assumes "fs p = Some d" "meta d = Some m" "select_value m (js ''secure'') = Some recorded"
    "recorded \<noteq> js ''true''"
    "s \<noteq> []" "length (utf8_encode s) \<le> crypto_secretbox_KEYBYTES" "sk_secure rt"
  shows "raised (constructor rt fs p (Some s)) = Some ConfigurationError
       \<and> kv (object_of (constructor rt fs p (Some s))) = Map.empty
       \<and> worker (object_of (constructor rt fs p (Some s))) = None"
  unfolding constructor_secure[OF assms(5,6,7)] Let_def
  using assms(1,2,3,4)
  by (simp add: create_table_if_not_exists_def select_startup_meta_secure raised_def object_of_def)

text \<open>
  C5, as the code has it. Take a store whose \<open>meta\<close> table records the flag \<open>secure\<close>.
  If the flag is \<open>true\<close>, the constructor without a secret key (absent or empty) raises
  the configuration error. If the flag is not \<open>true\<close>, the constructor with a secret
  key raises the configuration error provided the key could be secured: it is not
  empty, its UTF-8 encoding has at most 32 bytes, and the buffer reports to be secure.
  In both cases the index is empty and no worker exists when the error is raised.
\<close>

theorem mode_mismatch_refused:
  assumes "fs p = Some d" "meta d = Some m" "select_value m (js ''secure'') = Some recorded"
  shows "(recorded = js ''true'' \<longrightarrow>
            raised (constructor rt fs p None) = Some ConfigurationError
          \<and> kv (object_of (constructor rt fs p None)) = Map.empty
          \<and> worker (object_of (constructor rt fs p None)) = None
          \<and> raised (constructor rt fs p (Some [])) = Some ConfigurationError)
       \<and> (recorded \<noteq> js ''true'' \<and> s \<noteq> [] \<and> length (utf8_encode s) \<le> crypto_secretbox_KEYBYTES
            \<and> sk_secure rt \<longrightarrow>
            raised (constructor rt fs p (Some s)) = Some ConfigurationError
          \<and> kv (object_of (constructor rt fs p (Some s))) = Map.empty
          \<and> worker (object_of (constructor rt fs p (Some s))) = None)"
proof -
  have a: "recorded = js ''true'' \<Longrightarrow> secretKey = None \<or> secretKey = Some [] \<Longrightarrow>
      raised (constructor rt fs p secretKey) = Some ConfigurationError
       \<and> kv (object_of (constructor rt fs p secretKey)) = Map.empty
       \<and> worker (object_of (constructor rt fs p secretKey)) = None" for secretKey
    using assms by (intro mismatch_without_key[where d = d and m = m]) simp_all
  have b: "recorded \<noteq> js ''true'' \<Longrightarrow> s \<noteq> [] \<Longrightarrow>
      length (utf8_encode s) \<le> crypto_secretbox_KEYBYTES \<Longrightarrow> sk_secure rt \<Longrightarrow>
      raised (constructor rt fs p (Some s)) = Some ConfigurationError
       \<and> kv (object_of (constructor rt fs p (Some s))) = Map.empty
       \<and> worker (object_of (constructor rt fs p (Some s))) = None"
    using assms by (intro mismatch_with_key[where d = d and m = m and recorded = recorded]) simp_all
  show ?thesis using a[of None] a[of "Some []"] b by simp
qed

lemma example_secure_store:
  "snd (constructor example_runtime Map.empty (js ''db'') (Some (js ''k''))) (js ''db'')
     = Some \<lparr>meta = Some (insert_or_ignore (startup_meta example_runtime True [])
                           (js ''secure_test_string'')
                           (seal example_runtime (secret_key_bytes (js ''k'')) (js ''ENCRYPTED TEXT''))),
             key_value = Some []\<rparr>"
  by (simp add: example_engine_constructed)

lemma example_secure_store_flag:
  "select_value (insert_or_ignore (startup_meta example_runtime True [])
                   (js ''secure_test_string'')
                   (seal example_runtime (secret_key_bytes (js ''k'')) (js ''ENCRYPTED TEXT'')))
     (js ''secure'') = Some (js ''true'')"
  by (simp add: select_insert_or_ignore_other select_startup_meta_secure meta_names_differ
      select_empty)

lemma example_insecure_store:
  "snd (constructor example_runtime Map.empty (js ''db'') None) (js ''db'')
     = Some \<lparr>meta = Some (startup_meta example_runtime False []), key_value = Some []\<rparr>"
  by (simp add: example_insecure_engine_constructed)

lemma example_insecure_store_flag:
  "select_value (startup_meta example_runtime False []) (js ''secure'') = Some (js ''false'')"
  by (simp add: select_startup_meta_secure select_empty)

theorem mode_mismatch_refused_witness:
  "raised (constructor example_runtime
             (snd (constructor example_runtime Map.empty (js ''db'') (Some (js ''k''))))
             (js ''db'') None) = Some ConfigurationError
   \<and> raised (constructor example_runtime
             (snd (constructor example_runtime Map.empty (js ''db'') None))
             (js ''db'') (Some (js ''k''))) = Some ConfigurationError"
proof -
  have a: "meta \<lparr>meta = Some t, key_value = Some []\<rparr> = Some t" for t :: table by simp
  show ?thesis
    using mode_mismatch_refused[where fs = "snd (constructor example_runtime Map.empty (js ''db'') (Some (js ''k'')))"
        and p = "js ''db''" and rt = example_runtime and s = "js ''k''",
        OF example_secure_store a example_secure_store_flag]
      mode_mismatch_refused[where fs = "snd (constructor example_runtime Map.empty (js ''db'') None)"
        and p = "js ''db''" and rt = example_runtime and s = "js ''k''",
        OF example_insecure_store a example_insecure_store_flag]
      example_key_fits example_runtime_fields(3) meta_names_differ
    by simp
qed

text \<open>
  The claim C5 as stated fails: a store created without a secret key and reopened with
  a secret key of 33 letters \<open>a\<close> raises a \<open>RangeError\<close>, from \<open>this.sk.set(unsafeSk)\<close>,
  not the configuration error.
\<close>

theorem mode_mismatch_counterexample:
  "raised (constructor example_runtime Map.empty (js ''db'') None) = None
   \<and> raised (constructor example_runtime
               (snd (constructor example_runtime Map.empty (js ''db'') None))
               (js ''db'') (Some (replicate 33 97))) = Some RangeError
   \<and> RangeError \<noteq> ConfigurationError"
  using constructor_long_key[OF long_key_not_empty long_key, of example_runtime]
  by (simp add: example_insecure_engine_constructed raised_def)

subsection \<open>Keys are longer than tags\<close>



lemma byte_lists_card: "card {c :: byte list. length c = n} = 256 ^ n"
proof -
  have "finite (UNIV :: byte set)" by simp
  from card_lists_length_eq[OF this, of n] show ?thesis by (simp add: card_word)
qed

lemma byte_lists_finite: "finite {c :: byte list. length c = n}"
proof -
  have "finite (UNIV :: byte set)" by simp
  from finite_lists_length_eq[OF this, of n] show ?thesis by simp
qed


lemma colliding_keys:
  fixes f :: "byte list \<Rightarrow> byte list"
  assumes "\<And>k. length (f k) = 30"
  shows "\<exists>k k'. k \<noteq> k' \<and> length k = 32 \<and> length k' = 32 \<and> f k = f k'"
proof -
  let ?K = "{k :: byte list. length k = 32}"
  let ?C = "{c :: byte list. length c = 30}"
  have "f ` ?K \<subseteq> ?C" using assms by auto
  then have "card (f ` ?K) \<le> card ?C" by (rule card_mono[OF byte_lists_finite])
  also have "\<dots> < card ?K"
  proof -
    have "(256 :: nat) ^ 30 < 256 ^ 32" by simp
    then show ?thesis by (simp only: byte_lists_card)
  qed
  finally have "\<not> inj_on f ?K" by (rule pigeonhole)
  then obtain k k' where "k \<in> ?K" "k' \<in> ?K" "f k = f k'" "k \<noteq> k'"
    unfolding inj_on_def by blast
  then show ?thesis by auto
qed








subsection \<open>Set, close, worker, restart\<close>

lemma sqlite_text_well_formed: "well_formed s \<Longrightarrow> sqlite_text s = s"
  by (simp add: sqlite_text_def utf8_round_trip)

lemma well_formed_units_plain:
  "\<forall>u \<in> set us. u < 55296 \<Longrightarrow> well_formed_units us"
  by (induction us rule: well_formed_units.induct)
     (simp_all add: is_high_surrogate_def is_low_surrogate_def)

lemma well_formed_stringify: "well_formed (JSON_stringify c)"
  unfolding well_formed_def
  by (rule well_formed_units_plain) (use stringify_ascii[of c] in fastforce)

lemma sqlite_text_seal: "sqlite_text (seal rt key x) = seal rt key x"
  unfolding seal_def by (rule sqlite_text_well_formed[OF well_formed_stringify])

lemma store_database_same: "fs p = Some d \<Longrightarrow> store_database fs p d = fs"
  by (simp add: store_database_def map_upd_triv)

lemma worker_run_set:
  assumes "fs0 p = Some \<lparr>meta = M, key_value = Some rows\<rparr>" "\<not> is_private_path p"
  shows "worker_run [STARTUP p, SET key val, SHUTDOWN] (new_worker fs0 False) =
           (None,
            \<lparr>db = Some p, memory = empty_database,
             files = fs0(p \<mapsto> \<lparr>meta = M,
                                 key_value = Some (insert_or_replace rows (sqlite_text key)
                                                     (sqlite_text val))\<rparr>),
             busy = False, exited = True\<rparr>)"
  using assms by (simp add: new_worker_def update_key_value_def)

lemma worker_run_busy:
  assumes "fs0 p = Some \<lparr>meta = M, key_value = Some rows\<rparr>" "\<not> is_private_path p"
  shows "worker_run (STARTUP p # SET key val # msgs) (new_worker fs0 True) =
           (Some SQLiteBusy,
            \<lparr>db = Some p, memory = empty_database, files = fs0, busy = True, exited = False\<rparr>)"
  using assms by (simp add: new_worker_def update_key_value_def)

lemma worker_run_private:
  assumes "is_private_path p"
  shows "worker_run (STARTUP p # SET key val # msgs) (new_worker fs0 contended) =
           (Some SQLiteError,
            \<lparr>db = Some p, memory = empty_database, files = fs0, busy = contended, exited = False\<rparr>)"
  using assms by (simp add: new_worker_def update_key_value_def empty_database_def)

lemma constructor_insecure_success:
  assumes "secretKey = None \<or> secretKey = Some []"
    and "constructor rt fs p secretKey = (Inr e0, fs0)"
  obtains rows m where
    "fs0 = store_database fs p \<lparr>meta = Some m, key_value = Some rows\<rparr>"
    "e0 = \<lparr>kv = load_rows rows Map.empty, worker = Some [STARTUP p], sk = None, secure = False\<rparr>"
    "select_value m (js ''secure'') \<noteq> Some (js ''true'')"
    "startup_meta rt False m = m"
proof -
  let ?d = "case fs p of None \<Rightarrow> empty_database | Some d \<Rightarrow> d"
  let ?rows = "create_table_if_not_exists (key_value ?d)"
  let ?m = "startup_meta rt False (create_table_if_not_exists (meta ?d))"
  from assms(2) have
    "fs0 = store_database fs p \<lparr>meta = Some ?m, key_value = Some ?rows\<rparr>
     \<and> e0 = \<lparr>kv = load_rows ?rows Map.empty, worker = Some [STARTUP p], sk = None, secure = False\<rparr>
     \<and> select_value ?m (js ''secure'') \<noteq> Some (js ''true'')"
    unfolding constructor_insecure[OF assms(1)] Let_def
    by (auto split: if_splits)
  then show ?thesis using that[of ?m ?rows] startup_meta_again by blast
qed

lemma reopen_insecure:
  assumes "secretKey = None \<or> secretKey = Some []"
    and "fs1 p = Some \<lparr>meta = Some m, key_value = Some rows\<rparr>"
    and "select_value m (js ''secure'') \<noteq> Some (js ''true'')"
    and "startup_meta rt False m = m"
  shows "constructor rt fs1 p secretKey =
           (Inr \<lparr>kv = load_rows rows Map.empty, worker = Some [STARTUP p], sk = None,
                 secure = False\<rparr>, fs1)"
proof -
  have "store_database fs1 p \<lparr>meta = Some m, key_value = Some rows\<rparr> = fs1"
    using assms(2) by (rule store_database_same)
  then show ?thesis
    unfolding constructor_insecure[OF assms(1)] Let_def
    using assms(2,3,4) by (simp add: create_table_if_not_exists_def)
qed

lemma constructor_secure_success:
  assumes "constructor rt fs p (Some s) = (Inr e0, fs0)" "s \<noteq> []"
  obtains rows m plain where
    "length (utf8_encode s) \<le> crypto_secretbox_KEYBYTES" "sk_secure rt"
    "fs0 = store_database fs p \<lparr>meta = Some m, key_value = Some rows\<rparr>"
    "e0 = \<lparr>kv = load_rows rows Map.empty, worker = Some [STARTUP p],
           sk = Some \<lparr>bytes = secret_key_bytes s, prot = NoAccess\<rparr>, secure = True\<rparr>"
    "select_value m (js ''secure'') = Some (js ''true'')"
    "startup_meta rt True m = m"
    "\<exists>stored. select_value m (js ''secure_test_string'') = Some stored
        \<and> fst (decrypt rt stored \<lparr>kv = Map.empty, worker = None,
                 sk = Some \<lparr>bytes = secret_key_bytes s, prot = NoAccess\<rparr>, secure = True\<rparr>)
            = Inr plain"
proof -
  have fits: "length (utf8_encode s) \<le> crypto_secretbox_KEYBYTES"
  proof (rule ccontr)
    assume "\<not> ?thesis"
    then have "crypto_secretbox_KEYBYTES < length (utf8_encode s)" by simp
    from constructor_raises_early[OF secure_key_too_long[OF assms(2) this], of rt fs p]
    show False using assms(1) by simp
  qed
  have secured: "sk_secure rt"
  proof (rule ccontr)
    assume n: "\<not> sk_secure rt"
    have "\<not> secure uninitialised" by (simp add: uninitialised_def)
    from secure_key_not_secured[OF assms(2) fits n this]
    obtain that where "secure_key rt (Some s) uninitialised = Inl (FatalSecurityError, that)"
      by blast
    from constructor_raises_early[OF this, of fs p]
    show False using assms(1) by simp
  qed
  let ?K = "\<lparr>kv = Map.empty, worker = None,
             sk = Some \<lparr>bytes = secret_key_bytes s, prot = NoAccess\<rparr>, secure = True\<rparr>"
  let ?d = "case fs p of None \<Rightarrow> empty_database | Some d \<Rightarrow> d"
  let ?rows = "create_table_if_not_exists (key_value ?d)"
  let ?m = "startup_meta rt True (create_table_if_not_exists (meta ?d))"
  let ?m1 = "insert_or_ignore ?m (js ''secure_test_string'')
               (seal rt (secret_key_bytes s) (js ''ENCRYPTED TEXT''))"
  from assms(1) have
    "select_value ?m (js ''secure'') = Some (js ''true'')
     \<and> (\<exists>stored plain. select_value ?m1 (js ''secure_test_string'') = Some stored
          \<and> fst (decrypt rt stored ?K) = Inr plain
          \<and> fs0 = store_database fs p \<lparr>meta = Some ?m1, key_value = Some ?rows\<rparr>
          \<and> e0 = ?K\<lparr>kv := load_rows ?rows Map.empty, worker := Some [STARTUP p]\<rparr>)"
    unfolding constructor_secure[OF assms(2) fits secured] Let_def
    by (auto split: if_splits option.splits sum.splits)
  then obtain stored plain where
    f: "select_value ?m (js ''secure'') = Some (js ''true'')"
    and t: "select_value ?m1 (js ''secure_test_string'') = Some stored"
    and d: "fst (decrypt rt stored ?K) = Inr plain"
    and fs0: "fs0 = store_database fs p \<lparr>meta = Some ?m1, key_value = Some ?rows\<rparr>"
    and e0: "e0 = ?K\<lparr>kv := load_rows ?rows Map.empty, worker := Some [STARTUP p]\<rparr>"
    by blast
  have f1: "select_value ?m1 (js ''secure'') = Some (js ''true'')"
    using f by (simp add: select_insert_or_ignore_other meta_names_differ)
  have again: "startup_meta rt True ?m1 = ?m1"
    by (rule startup_meta_after_test_string)
  show ?thesis
    using that[of ?m1 ?rows plain] fits secured fs0 e0 f1 again t d by auto
qed

lemma reopen_secure:
  assumes "s \<noteq> []" "length (utf8_encode s) \<le> crypto_secretbox_KEYBYTES" "sk_secure rt"
    and "fs1 p = Some \<lparr>meta = Some m, key_value = Some rows\<rparr>"
    and "select_value m (js ''secure'') = Some (js ''true'')"
    and "startup_meta rt True m = m"
    and "select_value m (js ''secure_test_string'') = Some stored"
    and "fst (decrypt rt stored \<lparr>kv = Map.empty, worker = None,
                 sk = Some \<lparr>bytes = secret_key_bytes s, prot = NoAccess\<rparr>, secure = True\<rparr>)
            = Inr plain"
  shows "constructor rt fs1 p (Some s) =
           (Inr \<lparr>kv = load_rows rows Map.empty, worker = Some [STARTUP p],
                 sk = Some \<lparr>bytes = secret_key_bytes s, prot = NoAccess\<rparr>, secure = True\<rparr>, fs1)"
proof -
  have u: "store_database fs1 p \<lparr>meta = Some m, key_value = Some rows\<rparr> = fs1"
    using assms(4) by (rule store_database_same)
  have i: "insert_or_ignore m (js ''secure_test_string'') c = m" for c
    using assms(7) by (rule insert_or_ignore_present)
  show ?thesis
    unfolding constructor_secure[OF assms(1,2,3)] Let_def
    using assms(4,5,6,7,8) u i by (simp add: create_table_if_not_exists_def)
qed

lemma close_insecure:
  assumes "\<not> secure this" "worker this = Some posted"
  shows "close this = (Inr (), this\<lparr>worker := Some (posted @ [SHUTDOWN])\<rparr>)"
  using assms by (simp add: close_def)

lemma close_secure:
  assumes "secure this" "worker this = Some posted" "sk this = Some b"
  shows "close this =
           (Inr (), this\<lparr>worker := Some (posted @ [SHUTDOWN]),
                         sk := Some (sodium_munlock (sodium_mprotect_readwrite b))\<rparr>)"
  using assms by (simp add: close_def)

lemma get_kv_secure_miss:
  assumes "sk this = Some b" "secure this"
    and "kv this (JSON_stringify (crypto_secretbox_easy rt (utf8_encode k)
            (replicate crypto_secretbox_NONCEBYTES 0) (bytes b))) = None"
  shows "fst (get_kv rt k this) = Inr JSNull"
proof -
  let ?key = "JSON_stringify (crypto_secretbox_easy rt (utf8_encode k)
                (replicate crypto_secretbox_NONCEBYTES 0) (bytes b))"
  let ?t' = "this\<lparr>sk := Some (b\<lparr>prot := NoAccess\<rparr>)\<rparr>"
  have e: "encrypt rt k this = (Inr ?key, ?t')"
    by (rule encrypt_with_key[OF assms(1)])
  have g: "get_property (kv ?t') ?key = JSUndefined"
    using assms(3) by (simp add: get_property_def stringify_not_inherited)
  show ?thesis
    unfolding get_kv_def using assms(2) e g by (simp add: Let_def)
qed

lemma restart_insecure:
  assumes "secretKey = None \<or> secretKey = Some []"
    and "constructor rt fs p secretKey = (Inr e0, fs0)"
    and "v \<noteq> []" "k \<noteq> js ''__proto__''"
    and "well_formed k" "well_formed v" "\<not> is_private_path p"
  shows "restart_scenario rt fs p secretKey k v False = Inr (JSString v)"
proof -
  from constructor_insecure_success[OF assms(1,2)] obtain rows m where
    fs0: "fs0 = store_database fs p \<lparr>meta = Some m, key_value = Some rows\<rparr>"
    and e0: "e0 = \<lparr>kv = load_rows rows Map.empty, worker = Some [STARTUP p], sk = None, secure = False\<rparr>"
    and f: "select_value m (js ''secure'') \<noteq> Some (js ''true'')"
    and a: "startup_meta rt False m = m" by blast
  let ?e1 = "e0\<lparr>kv := set_property (kv e0) k v, worker := Some ([STARTUP p] @ [SET k v])\<rparr>"
  let ?e2 = "?e1\<lparr>worker := Some (([STARTUP p] @ [SET k v]) @ [SHUTDOWN])\<rparr>"
  let ?rows = "insert_or_replace rows k v"
  let ?fs1 = "fs0(p \<mapsto> \<lparr>meta = Some m, key_value = Some ?rows\<rparr>)"
  let ?w = "\<lparr>db = Some p, memory = empty_database, files = ?fs1, busy = False, exited = True\<rparr>"
  let ?e3 = "\<lparr>kv = load_rows ?rows Map.empty, worker = Some [STARTUP p], sk = None, secure = False\<rparr>"
  have s: "set_kv rt k v e0 = (Inr (has_property (kv e0) k), ?e1)"
    by (rule set_kv_insecure) (simp_all add: e0)
  have c: "close ?e1 = (Inr (), ?e2)"
    by (rule close_insecure) (simp_all add: e0)
  have m: "worker ?e2 = Some [STARTUP p, SET k v, SHUTDOWN]" by simp
  have "fs0 p = Some \<lparr>meta = Some m, key_value = Some rows\<rparr>"
    by (simp add: fs0 store_database_file[OF assms(7)])
  from worker_run_set[where ?fs0.0 = fs0 and p = p, OF this assms(7), of k v]
  have r: "worker_run [STARTUP p, SET k v, SHUTDOWN] (new_worker fs0 False) = (None, ?w)"
    by (simp add: sqlite_text_well_formed[OF assms(5)] sqlite_text_well_formed[OF assms(6)])
  have "?fs1 p = Some \<lparr>meta = Some m, key_value = Some ?rows\<rparr>" by simp
  from reopen_insecure[where ?fs1.0 = ?fs1 and p = p, OF assms(1) this f a]
  have o: "constructor rt ?fs1 p secretKey = (Inr ?e3, ?fs1)" by simp
  have l: "kv ?e3 k = Some v" using load_rows_replaced[OF assms(4)] by simp
  have "\<not> secure ?e3" by simp
  from get_kv_insecure_hit[OF this l assms(3), of rt]
  have g: "fst (get_kv rt k ?e3) = Inr (JSString v)" by simp
  show ?thesis
    unfolding restart_scenario_def assms(2) prod.case sum.case s c m option.case r snd_conv
    by (simp add: o g)
qed

lemma restart_secure:
  assumes "secretbox_contract rt" "s \<noteq> []"
    and "constructor rt fs p (Some s) = (Inr e0, fs0)"
    and "\<not> is_private_path p"
  shows "restart_scenario rt fs p (Some s) k v False
           = Inr (JSString (utf8_decode (utf8_encode v)))"
proof (rule constructor_secure_success[OF assms(3,2)])
  fix rows m plain
  let ?b = "\<lparr>bytes = secret_key_bytes s, prot = NoAccess\<rparr>"
  assume fits: "length (utf8_encode s) \<le> crypto_secretbox_KEYBYTES"
    and secured: "sk_secure rt"
    and fs0: "fs0 = store_database fs p \<lparr>meta = Some m, key_value = Some rows\<rparr>"
    and e0: "e0 = \<lparr>kv = load_rows rows Map.empty, worker = Some [STARTUP p],
                   sk = Some ?b, secure = True\<rparr>"
    and f: "select_value m (js ''secure'') = Some (js ''true'')"
    and a: "startup_meta rt True m = m"
    and td: "\<exists>stored. select_value m (js ''secure_test_string'') = Some stored
        \<and> fst (decrypt rt stored \<lparr>kv = Map.empty, worker = None, sk = Some ?b, secure = True\<rparr>)
            = Inr plain"
  from td obtain stored where
    t: "select_value m (js ''secure_test_string'') = Some stored"
    and d: "fst (decrypt rt stored \<lparr>kv = Map.empty, worker = None, sk = Some ?b, secure = True\<rparr>)
              = Inr plain"
    by (elim exE conjE)
  let ?key = "seal rt (secret_key_bytes s) k"
  let ?val = "seal rt (secret_key_bytes s) v"
  let ?e1 = "e0\<lparr>kv := (kv e0)(?key \<mapsto> ?val), worker := Some ([STARTUP p] @ [SET ?key ?val]),
               sk := Some (?b\<lparr>prot := NoAccess\<rparr>)\<rparr>"
  let ?e2 = "?e1\<lparr>worker := Some (([STARTUP p] @ [SET ?key ?val]) @ [SHUTDOWN]),
                sk := Some (sodium_munlock (sodium_mprotect_readwrite (?b\<lparr>prot := NoAccess\<rparr>)))\<rparr>"
  let ?rows = "insert_or_replace rows ?key ?val"
  let ?fs1 = "fs0(p \<mapsto> \<lparr>meta = Some m, key_value = Some ?rows\<rparr>)"
  let ?w = "\<lparr>db = Some p, memory = empty_database, files = ?fs1, busy = False, exited = True\<rparr>"
  let ?e3 = "\<lparr>kv = load_rows ?rows Map.empty, worker = Some [STARTUP p], sk = Some ?b, secure = True\<rparr>"
  have e0f: "secure e0" "sk e0 = Some ?b" "worker e0 = Some [STARTUP p]" by (simp_all add: e0)
  have s: "set_kv rt k v e0 = (Inr (kv e0 ?key \<noteq> None), ?e1)"
    using set_kv_secure[OF e0f, of rt k v] by (simp add: Let_def seal_def)
  have e1f: "secure ?e1" "worker ?e1 = Some ([STARTUP p] @ [SET ?key ?val])"
    "sk ?e1 = Some (?b\<lparr>prot := NoAccess\<rparr>)" using e0f by simp_all
  have c: "close ?e1 = (Inr (), ?e2)"
    by (rule close_secure[OF e1f])
  have msgs: "worker ?e2 = Some [STARTUP p, SET ?key ?val, SHUTDOWN]" by simp
  have "fs0 p = Some \<lparr>meta = Some m, key_value = Some rows\<rparr>"
    by (simp add: fs0 store_database_file[OF assms(4)])
  from worker_run_set[where ?fs0.0 = fs0 and p = p, OF this assms(4), of ?key ?val]
  have r: "worker_run [STARTUP p, SET ?key ?val, SHUTDOWN] (new_worker fs0 False) = (None, ?w)"
    by (simp add: sqlite_text_seal)
  have "?fs1 p = Some \<lparr>meta = Some m, key_value = Some ?rows\<rparr>" by simp
  from reopen_secure[where ?fs1.0 = ?fs1 and p = p, OF assms(2) fits secured this f a t d]
  have o: "constructor rt ?fs1 p (Some s) = (Inr ?e3, ?fs1)" by simp
  have "?key \<noteq> js ''__proto__''" unfolding seal_def by (rule stringify_not_proto)
  from load_rows_replaced[OF this]
  have l: "kv ?e3 ?key = Some ?val" by simp
  have k3: "sk ?e3 = Some ?b" "secure ?e3" by simp_all
  have g: "fst (get_kv rt k ?e3) = Inr (JSString (utf8_decode (utf8_encode v)))"
    by (rule get_kv_secure_hit[OF assms(1) k3]) (use l in \<open>simp add: seal_def\<close>)
  show ?thesis
    unfolding restart_scenario_def assms(3) prod.case sum.case s c msgs option.case r snd_conv
    by (simp add: o g)
qed

text \<open>
  The same run when the file is still locked by the handle of the constructor: the
  \<open>SET\<close> raises in the worker, the row is never written, and the new engine finds the
  index as the first one had loaded it.
\<close>

lemma restart_contended_secure:
  assumes "s \<noteq> []"
    and "constructor rt fs p (Some s) = (Inr e0, fs0)"
    and "\<not> is_private_path p"
    and "kv e0 (seal rt (secret_key_bytes s) k) = None"
  shows "restart_scenario rt fs p (Some s) k v True = Inr JSNull"
proof (rule constructor_secure_success[OF assms(2,1)])
  fix rows m plain
  let ?b = "\<lparr>bytes = secret_key_bytes s, prot = NoAccess\<rparr>"
  assume fits: "length (utf8_encode s) \<le> crypto_secretbox_KEYBYTES"
    and secured: "sk_secure rt"
    and fs0: "fs0 = store_database fs p \<lparr>meta = Some m, key_value = Some rows\<rparr>"
    and e0: "e0 = \<lparr>kv = load_rows rows Map.empty, worker = Some [STARTUP p],
                   sk = Some ?b, secure = True\<rparr>"
    and f: "select_value m (js ''secure'') = Some (js ''true'')"
    and a: "startup_meta rt True m = m"
    and td: "\<exists>stored. select_value m (js ''secure_test_string'') = Some stored
        \<and> fst (decrypt rt stored \<lparr>kv = Map.empty, worker = None, sk = Some ?b, secure = True\<rparr>)
            = Inr plain"
  from td obtain stored where
    t: "select_value m (js ''secure_test_string'') = Some stored"
    and d: "fst (decrypt rt stored \<lparr>kv = Map.empty, worker = None, sk = Some ?b, secure = True\<rparr>)
              = Inr plain"
    by (elim exE conjE)
  let ?key = "seal rt (secret_key_bytes s) k"
  let ?val = "seal rt (secret_key_bytes s) v"
  let ?e1 = "e0\<lparr>kv := (kv e0)(?key \<mapsto> ?val), worker := Some ([STARTUP p] @ [SET ?key ?val]),
               sk := Some (?b\<lparr>prot := NoAccess\<rparr>)\<rparr>"
  let ?e2 = "?e1\<lparr>worker := Some (([STARTUP p] @ [SET ?key ?val]) @ [SHUTDOWN]),
                sk := Some (sodium_munlock (sodium_mprotect_readwrite (?b\<lparr>prot := NoAccess\<rparr>)))\<rparr>"
  let ?w = "\<lparr>db = Some p, memory = empty_database, files = fs0, busy = True, exited = False\<rparr>"
  have e0f: "secure e0" "sk e0 = Some ?b" "worker e0 = Some [STARTUP p]" by (simp_all add: e0)
  have s: "set_kv rt k v e0 = (Inr (kv e0 ?key \<noteq> None), ?e1)"
    using set_kv_secure[OF e0f, of rt k v] by (simp add: Let_def seal_def)
  have e1f: "secure ?e1" "worker ?e1 = Some ([STARTUP p] @ [SET ?key ?val])"
    "sk ?e1 = Some (?b\<lparr>prot := NoAccess\<rparr>)" using e0f by simp_all
  have c: "close ?e1 = (Inr (), ?e2)"
    by (rule close_secure[OF e1f])
  have msgs: "worker ?e2 = Some [STARTUP p, SET ?key ?val, SHUTDOWN]" by simp
  have here: "fs0 p = Some \<lparr>meta = Some m, key_value = Some rows\<rparr>"
    by (simp add: fs0 store_database_file[OF assms(3)])
  from worker_run_busy[where ?fs0.0 = fs0 and p = p, OF this assms(3), of ?key ?val "[SHUTDOWN]"]
  have r: "worker_run [STARTUP p, SET ?key ?val, SHUTDOWN] (new_worker fs0 True)
             = (Some SQLiteBusy, ?w)" .
  from reopen_secure[where ?fs1.0 = fs0 and p = p, OF assms(1) fits secured here f a t d]
  have o: "constructor rt fs0 p (Some s) = (Inr e0, fs0)" by (simp add: e0)
  have g: "fst (get_kv rt k e0) = Inr JSNull"
    by (rule get_kv_secure_miss[OF e0f(2,1)]) (use assms(4) in \<open>simp add: seal_def\<close>)
  show ?thesis
    unfolding restart_scenario_def assms(2) prod.case sum.case s c msgs option.case r snd_conv
    by (simp add: o g)
qed

subsection \<open>The test string at startup\<close>







lemma utf8_encode_test_string:
  "utf8_encode (js ''ENCRYPTED TEXT'') = [69, 78, 67, 82, 89, 80, 84, 69, 68, 32, 84, 69, 88, 84]"
  by (simp add: utf8_encode_def js_def utf8_of_code_point_def is_high_surrogate_def
      is_low_surrogate_def)








text \<open>
  No secret box with the interface of the library refuses the test string under every
  other key buffer: the sealed test string has 30 bytes and a key buffer 32, so two
  different buffers seal it to the same bytes, and each opens what the other sealed.
\<close>

lemma test_string_opens_under_another_key:
  assumes "secretbox_contract rt"
  shows "\<exists>k k'. k \<noteq> k' \<and> length k = 32 \<and> length k' = 32
           \<and> crypto_secretbox_open_easy rt
                (crypto_secretbox_easy rt (utf8_encode (js ''ENCRYPTED TEXT''))
                   (replicate crypto_secretbox_NONCEBYTES 0) k)
                (replicate crypto_secretbox_NONCEBYTES 0) k'
               = Some (utf8_encode (js ''ENCRYPTED TEXT''))"
proof -
  let ?n = "replicate crypto_secretbox_NONCEBYTES 0"
  let ?f = "\<lambda>k. crypto_secretbox_easy rt (utf8_encode (js ''ENCRYPTED TEXT'')) ?n k"
  have len: "length (?f k) = 30" for k
    using assms
    by (simp add: secretbox_contract_def crypto_secretbox_MACBYTES_def utf8_encode_test_string)
  from colliding_keys[of ?f, OF len] obtain k k' where
    "k \<noteq> k'" "length k = 32" "length k' = 32" and c: "?f k = ?f k'" by blast
  moreover have "crypto_secretbox_open_easy rt (?f k) ?n k'
                   = Some (utf8_encode (js ''ENCRYPTED TEXT''))"
    unfolding c using assms by (simp add: secretbox_contract_def)
  ultimately show ?thesis by blast
qed

subsection \<open>Restart durability\<close>

lemma posted_insecure:
  assumes "secretKey = None \<or> secretKey = Some []"
    and "constructor rt fs p secretKey = (Inr e0, fs0)"
  shows "\<not> secure e0
       \<and> worker (snd (close (snd (set_kv rt k v e0)))) = Some [STARTUP p, SET k v, SHUTDOWN]"
proof (rule constructor_insecure_success[OF assms])
  fix rows m
  assume e0: "e0 = \<lparr>kv = load_rows rows Map.empty, worker = Some [STARTUP p], sk = None,
                    secure = False\<rparr>"
  have f: "\<not> secure e0" "worker e0 = Some [STARTUP p]" by (simp_all add: e0)
  show ?thesis
    using f by (simp add: set_kv_insecure[OF f] close_insecure)
qed

lemma posted_secure:
  assumes "s \<noteq> []" "constructor rt fs p (Some s) = (Inr e0, fs0)"
  shows "secure e0
       \<and> worker (snd (close (snd (set_kv rt k v e0))))
           = Some [STARTUP p, SET (seal rt (secret_key_bytes s) k)
                                  (seal rt (secret_key_bytes s) v), SHUTDOWN]"
proof (rule constructor_secure_success[OF assms(2,1)])
  fix rows m plain
  let ?b = "\<lparr>bytes = secret_key_bytes s, prot = NoAccess\<rparr>"
  assume e0: "e0 = \<lparr>kv = load_rows rows Map.empty, worker = Some [STARTUP p],
                   sk = Some ?b, secure = True\<rparr>"
  have f: "secure e0" "sk e0 = Some ?b" "worker e0 = Some [STARTUP p]" by (simp_all add: e0)
  show ?thesis
    using f by (simp add: set_kv_secure[OF f] Let_def close_def seal_def)
qed

text \<open>
  When the worker is not refused. Let an engine be constructed on a path that names a
  file, \<open>set(k, v)\<close> and \<open>close()\<close> be called, the worker take the posted messages
  with the file free, and a new engine be constructed on the same path with the same
  secret key. The messages are \<open>STARTUP\<close>, one \<open>SET\<close> and \<open>SHUTDOWN\<close>, in this
  order. If \<open>k\<close> and \<open>v\<close> are well formed (no unpaired surrogate) then \<open>get(k)\<close> on
  the new engine returns \<open>v\<close>; without a secret key this is stated for a non-empty
  \<open>v\<close> and a key other than \<open>__proto__\<close>.
\<close>

lemma restart_persists:
  assumes "secretbox_contract rt"
    and "constructor rt fs p secretKey = (Inr e0, fs0)"
    and "\<not> is_private_path p"
    and "well_formed k" "well_formed v"
    and "secure e0 \<or> (v \<noteq> [] \<and> k \<noteq> js ''__proto__'')"
  shows "restart_scenario rt fs p secretKey k v False = Inr (JSString v)
       \<and> (\<exists>key val. worker (snd (close (snd (set_kv rt k v e0))))
                       = Some [STARTUP p, SET key val, SHUTDOWN])"
proof (cases "secretKey = None \<or> secretKey = Some []")
  case True
  from posted_insecure[OF True assms(2), of k v] assms(6)
  have "v \<noteq> []" "k \<noteq> js ''__proto__''" by auto
  from restart_insecure[OF True assms(2) this assms(4,5,3)] posted_insecure[OF True assms(2), of k v]
  show ?thesis by blast
next
  case False
  then obtain s where s: "secretKey = Some s" "s \<noteq> []" by auto
  from restart_secure[OF assms(1) s(2) assms(2)[unfolded s(1)] assms(3), of k v]
    utf8_round_trip[OF assms(5)] posted_secure[OF s(2) assms(2)[unfolded s(1)], of k v]
  show ?thesis unfolding s(1) by auto
qed

text \<open>
  On a path that names no file nothing comes back: the worker opens a private, empty
  database, where the table \<open>key_value\<close> does not exist, and the new engine another.
\<close>

lemma restart_private_path:
  "restart_scenario example_runtime Map.empty (js '':memory:'') None (js ''a'') (js ''b'') contended
     = Inr JSNull"
proof -
  let ?p = "js '':memory:''"
  let ?e0 = "\<lparr>kv = Map.empty, worker = Some [STARTUP ?p], sk = None, secure = False\<rparr> :: HareDB"
  let ?e1 = "?e0\<lparr>kv := set_property (kv ?e0) (js ''a'') (js ''b''),
                 worker := Some ([STARTUP ?p] @ [SET (js ''a'') (js ''b'')])\<rparr>"
  let ?e2 = "?e1\<lparr>worker := Some (([STARTUP ?p] @ [SET (js ''a'') (js ''b'')]) @ [SHUTDOWN])\<rparr>"
  let ?w = "\<lparr>db = Some ?p, memory = empty_database, files = Map.empty, busy = contended,
             exited = False\<rparr>"
  have p: "is_private_path ?p" by (simp add: is_private_path_def)
  have c: "constructor example_runtime Map.empty ?p None = (Inr ?e0, Map.empty)"
    using constructor_insecure_creates[of Map.empty ?p None example_runtime]
    by (simp add: store_database_private[OF p])
  have s: "set_kv example_runtime (js ''a'') (js ''b'') ?e0
             = (Inr (has_property (kv ?e0) (js ''a'')), ?e1)"
    by (rule set_kv_insecure) simp_all
  have c2: "close ?e1 = (Inr (), ?e2)"
    by (rule close_insecure) simp_all
  have m: "worker ?e2 = Some [STARTUP ?p, SET (js ''a'') (js ''b''), SHUTDOWN]" by simp
  have r: "worker_run [STARTUP ?p, SET (js ''a'') (js ''b''), SHUTDOWN]
             (new_worker Map.empty contended) = (Some SQLiteError, ?w)"
    by (rule worker_run_private[OF p])
  have g: "fst (get_kv example_runtime (js ''a'') ?e0) = Inr JSNull"
    by (simp add: get_kv_def get_property_def object_prototype_names_def js_def)
  show ?thesis
    unfolding restart_scenario_def c prod.case sum.case s c2 m option.case r snd_conv
    by (simp add: c g)
qed

lemma well_formed_b: "well_formed (js ''b'')"
  by (simp add: well_formed_def js_def is_high_surrogate_def is_low_surrogate_def)

text \<open>
  C6 at a failing input. A secure engine is constructed on the fresh file \<open>db\<close> with
  the secret key \<open>k\<close>; \<open>set(a, b)\<close> and \<open>close()\<close> are called; a new engine is
  constructed on the same path with the same key, and \<open>get(a)\<close> is called. The engine
  posts \<open>STARTUP\<close>, the \<open>SET\<close> and \<open>SHUTDOWN\<close>, in this order. While the handle of
  the constructor still holds the file, the \<open>SET\<close> raises in the worker, which ends
  there: the row is never written and \<open>get(a)\<close> on the new engine returns \<open>null\<close>,
  where the claim says \<open>b\<close>. The same run with the file free returns \<open>b\<close>.
\<close>

theorem restart_loses_write:
  "worker (snd (close (snd (set_kv example_runtime (js ''a'') (js ''b'') example_engine))))
     = Some [STARTUP (js ''db''),
             SET (seal example_runtime (secret_key_bytes (js ''k'')) (js ''a''))
                 (seal example_runtime (secret_key_bytes (js ''k'')) (js ''b'')),
             SHUTDOWN]
   \<and> fst (worker_run
            [STARTUP (js ''db''),
             SET (seal example_runtime (secret_key_bytes (js ''k'')) (js ''a''))
                 (seal example_runtime (secret_key_bytes (js ''k'')) (js ''b'')),
             SHUTDOWN]
            (new_worker (snd (constructor example_runtime Map.empty (js ''db'') (Some (js ''k''))))
               True))
       = Some SQLiteBusy
   \<and> restart_scenario example_runtime Map.empty (js ''db'') (Some (js ''k'')) (js ''a'') (js ''b'')
        True = Inr JSNull
   \<and> restart_scenario example_runtime Map.empty (js ''db'') (Some (js ''k'')) (js ''a'') (js ''b'')
        False = Inr (JSString (js ''b''))"
proof (intro conjI)
  show "worker (snd (close (snd (set_kv example_runtime (js ''a'') (js ''b'') example_engine))))
     = Some [STARTUP (js ''db''),
             SET (seal example_runtime (secret_key_bytes (js ''k'')) (js ''a''))
                 (seal example_runtime (secret_key_bytes (js ''k'')) (js ''b'')),
             SHUTDOWN]"
    using posted_secure[OF example_key_fits(1) example_engine_constructed, of "js ''a''" "js ''b''"]
    by simp
next
  show "fst (worker_run
            [STARTUP (js ''db''),
             SET (seal example_runtime (secret_key_bytes (js ''k'')) (js ''a''))
                 (seal example_runtime (secret_key_bytes (js ''k'')) (js ''b'')),
             SHUTDOWN]
            (new_worker (snd (constructor example_runtime Map.empty (js ''db'') (Some (js ''k''))))
               True))
       = Some SQLiteBusy"
    by (simp only: worker_run_busy[where ?fs0.0 = "snd (constructor example_runtime Map.empty (js ''db'') (Some (js ''k'')))"
          and p = "js ''db''", OF example_secure_store db_names_file] fst_conv)
next
  have "kv example_engine (seal example_runtime (secret_key_bytes (js ''k'')) (js ''a'')) = None"
    by (simp add: example_engine_fields)
  from restart_contended_secure[OF example_key_fits(1) example_engine_constructed db_names_file this]
  show "restart_scenario example_runtime Map.empty (js ''db'') (Some (js ''k'')) (js ''a'') (js ''b'')
        True = Inr JSNull" .
next
  from restart_secure[OF example_runtime_contract example_key_fits(1) example_engine_constructed
      db_names_file, of "js ''a''" "js ''b''"]
  show "restart_scenario example_runtime Map.empty (js ''db'') (Some (js ''k'')) (js ''a'') (js ''b'')
        False = Inr (JSString (js ''b''))"
    by (simp add: utf8_round_trip[OF well_formed_b])
qed

subsection \<open>The protection state of the key\<close>

lemma constructor_locks_key:
  assumes "constructor rt fs p secretKey = (Inr e0, fs0)" "secure e0"
  shows "key_locked e0"
proof (cases "secretKey = None \<or> secretKey = Some []")
  case True
  from posted_insecure[OF True assms(1)] assms(2) show ?thesis by simp
next
  case False
  then obtain s where s: "secretKey = Some s" "s \<noteq> []" by auto
  show ?thesis
  proof (rule constructor_secure_success[OF assms(1)[unfolded s(1)] s(2)])
    fix rows m plain
    assume "e0 = \<lparr>kv = load_rows rows Map.empty, worker = Some [STARTUP p],
                   sk = Some \<lparr>bytes = secret_key_bytes s, prot = NoAccess\<rparr>, secure = True\<rparr>"
    then show ?thesis by (simp add: key_locked_def)
  qed
qed

lemma close_unlocks:
  assumes "secure this" "sk this = Some b"
  shows "sk (snd (close this)) = Some \<lparr>bytes = replicate (length (bytes b)) 0, prot = ReadWrite\<rparr>"
  using assms
  by (simp add: close_def sodium_munlock_def sodium_mprotect_readwrite_def split: option.splits)

text \<open>
  C7. The protected buffer of the secret key is in the state \<open>NoAccess\<close> whenever no
  call of \<open>encrypt\<close> or \<open>decrypt\<close> is running, up to the final teardown. The
  constructor of a secure engine leaves it so. If it is so before a call of \<open>encrypt\<close>,
  of \<open>decrypt\<close>, of \<open>set\<close>, of \<open>get\<close> or of \<open>del\<close>, it is so in the state the call
  leaves, whether the call returns or raises; this includes a \<open>decrypt\<close> whose
  authentication fails. Only \<open>close\<close> leaves another state: the buffer zeroed and
  \<open>ReadWrite\<close>.
\<close>

theorem protection_state_invariant:
  "(constructor rt fs p secretKey = (Inr e0, fs0) \<and> secure e0 \<longrightarrow> key_locked e0)
   \<and> (key_locked this \<longrightarrow>
          key_locked (snd (encrypt rt v this)) \<and> key_locked (snd (decrypt rt c this))
        \<and> key_locked (snd (set_kv rt k v this)) \<and> key_locked (snd (get_kv rt k this))
        \<and> key_locked (snd (del rt k this)))
   \<and> (secure this \<and> sk this = Some b \<longrightarrow>
          sk (snd (close this)) = Some \<lparr>bytes = replicate (length (bytes b)) 0, prot = ReadWrite\<rparr>)"
proof (intro conjI impI)
  assume "constructor rt fs p secretKey = (Inr e0, fs0) \<and> secure e0"
  then show "key_locked e0" using constructor_locks_key by blast
next
  assume "secure this \<and> sk this = Some b"
  then show "sk (snd (close this)) = Some \<lparr>bytes = replicate (length (bytes b)) 0, prot = ReadWrite\<rparr>"
    using close_unlocks by blast
qed (simp_all add: key_locked_encrypt key_locked_decrypt key_locked_set_kv
    key_locked_get_kv key_locked_del)

theorem protection_state_invariant_witness:
  "constructor example_runtime Map.empty (js ''db'') (Some (js ''k''))
     = (Inr example_engine,
        [js ''db'' \<mapsto> \<lparr>meta = Some (insert_or_ignore (startup_meta example_runtime True [])
                                       (js ''secure_test_string'')
                                       (seal example_runtime (secret_key_bytes (js ''k''))
                                          (js ''ENCRYPTED TEXT''))),
                         key_value = Some []\<rparr>])
   \<and> secure example_engine
   \<and> key_locked example_engine
   \<and> key_locked (snd (encrypt example_runtime (js ''a'') example_engine))
   \<and> fst (decrypt example_runtime (JSON_stringify (replicate 16 81 @ [82])) example_engine)
       = Inl DecryptionError
   \<and> key_locked (snd (decrypt example_runtime (JSON_stringify (replicate 16 81 @ [82]))
                         example_engine))
   \<and> key_locked (snd (set_kv example_runtime (js ''k'') (js ''a'') example_engine))
   \<and> key_locked (snd (get_kv example_runtime (js ''k'') example_engine))
   \<and> key_locked (snd (del example_runtime (js ''k'') example_engine))
   \<and> sk (snd (close example_engine)) = Some \<lparr>bytes = replicate 32 0, prot = ReadWrite\<rparr>"
proof -
  have d: "fst (decrypt example_runtime (JSON_stringify (replicate 16 81 @ [82])) example_engine)
       = Inl DecryptionError"
    using decrypt_serialised[OF example_engine_fields(1), of "replicate 16 81 @ [82]" example_runtime]
      example_tampered
    by (simp add: crypto_secretbox_MACBYTES_def example_runtime_fields)
  show ?thesis
    using protection_state_invariant[where rt = example_runtime and fs = Map.empty
        and p = "js ''db''" and secretKey = "Some (js ''k'')" and ?e0.0 = example_engine
        and this = example_engine and v = "js ''a''"
        and c = "JSON_stringify (replicate 16 81 @ [82])" and k = "js ''k''"
        and b = "\<lparr>bytes = 107 # replicate 31 219, prot = NoAccess\<rparr>"]
      example_engine_constructed example_engine_fields(1,2) d
    by simp
qed

end
